theory Spec2Isabelle
  imports Complex_Main "HOL-Library.Word" "HOL-Library.Sublist"
begin

section \<open>Errors and JavaScript values\<close>

text \<open>
  Exceptions of the client are values of the type \<open>error\<close>; a function that may throw
  returns \<open>error + 'a\<close> with \<open>Inl\<close> for the exception.  \<open>ErrorCause msg e\<close> is
  \<^verbatim>\<open>new Error(msg, { cause: e })\<close> and \<open>ParseFailure msg e\<close> is
  \<^verbatim>\<open>new EventParseError(msg, e)\<close> as thrown inside \<^verbatim>\<open>parseEvent\<close>.  Messages that
  interpolate a run-time value keep their fixed text only.
\<close>

datatype error =
    RangeError
  | TypeError
  | Error string
  | ErrorCause string error
  | ParseFailure string error

text \<open>
  A JavaScript \<^verbatim>\<open>number\<close> is a finite double (a rational), \<^verbatim>\<open>NaN\<close> or an infinity.
\<close>

datatype number = Finite rat | NaN | Infinity | NegInfinity

text \<open>
  The values a decoded payload or an argument of the client can be.  An object is the
  list of its own enumerable properties in the order of \<^verbatim>\<open>Object.entries\<close>; an array
  is the list of its elements (its keys are the indices).  A \<^verbatim>\<open>Buffer\<close> behaves like
  an array of numbers for every operation modelled here.
\<close>

datatype jsval =
    JUndefined
  | JNull
  | JBool bool
  | JNum number
  | JStr string
  | JArr "jsval list"
  | JObj "(string \<times> jsval) list"

fun truthy :: "jsval \<Rightarrow> bool" where
  "truthy JUndefined = False"
| "truthy JNull = False"
| "truthy (JBool b) = b"
| "truthy (JNum n) = (n \<noteq> NaN \<and> n \<noteq> Finite 0)"
| "truthy (JStr s) = (s \<noteq> [])"
| "truthy (JArr xs) = True"
| "truthy (JObj kvs) = True"

fun typeof :: "jsval \<Rightarrow> string" where
  "typeof JUndefined = ''undefined''"
| "typeof JNull = ''object''"
| "typeof (JBool b) = ''boolean''"
| "typeof (JNum n) = ''number''"
| "typeof (JStr s) = ''string''"
| "typeof (JArr xs) = ''object''"
| "typeof (JObj kvs) = ''object''"

section \<open>Replay position codec\<close>

type_synonym byte = "8 word"
type_synonym buffer = "byte list"

text \<open>
  \<^verbatim>\<open>Number(b)\<close> for a non-negative \<^verbatim>\<open>BigInt\<close> \<open>b\<close>: the double nearest to \<open>b\<close>,
  ties to the even significand.  A double of magnitude \<open>2^53\<close> or more is an integer,
  so the result is again an \<open>int\<close>.  \<open>bitLength\<close> is the number of binary digits.
  (Values of \<open>2^1024\<close> and more would give \<^verbatim>\<open>Infinity\<close>; the codec stays below
  \<open>2^64\<close>.)
\<close>

function bitLength :: "int \<Rightarrow> nat" where
  "bitLength n = (if n \<le> 0 then 0 else Suc (bitLength (n div 2)))"
  by pat_completeness auto
termination
  by (relation "measure nat") auto

declare bitLength.simps [simp del]

definition Number :: "int \<Rightarrow> int" where
  "Number n =
     (if n < 2 ^ 53 then n
      else let e = bitLength n - 53;
               q = n div 2 ^ e;
               r = n mod 2 ^ e;
               half = 2 ^ (e - 1)
           in (if half < r \<or> (r = half \<and> odd q) then q + 1 else q) * 2 ^ e)"

text \<open>
  \<^verbatim>\<open>buf.readBigUInt64BE()\<close> reads the eight bytes at offset 0, most significant first,
  and throws a \<^verbatim>\<open>RangeError\<close> when the buffer has fewer than eight bytes;
  \<^verbatim>\<open>buf.writeBigUInt64BE(v, 0)\<close> on a buffer of eight bytes throws a
  \<^verbatim>\<open>RangeError\<close> unless \<open>0 \<le> v < 2^64\<close>.
\<close>

fun readBigUIntBE :: "buffer \<Rightarrow> int" where
  "readBigUIntBE [] = 0"
| "readBigUIntBE (b # bs) = uint b * 256 ^ length bs + readBigUIntBE bs"

fun writeBigUIntBE :: "nat \<Rightarrow> int \<Rightarrow> buffer" where
  "writeBigUIntBE 0 v = []"
| "writeBigUIntBE (Suc k) v = of_int (v div 256 ^ k) # writeBigUIntBE k v"

definition readBigUInt64BE :: "buffer \<Rightarrow> error + int" where
  "readBigUInt64BE buf =
     (if length buf < 8 then Inl RangeError else Inr (readBigUIntBE (take 8 buf)))"

definition writeBigUInt64BE :: "int \<Rightarrow> error + buffer" where
  "writeBigUInt64BE v =
     (if v < 0 \<or> 2 ^ 64 \<le> v then Inl RangeError else Inr (writeBigUIntBE 8 v))"

text \<open>
  \<^verbatim>\<open>decodeReplayId\<close>: \<^verbatim>\<open>Number(encodedReplayId.readBigUInt64BE())\<close>.
\<close>

definition decodeReplayId :: "buffer \<Rightarrow> error + int" where
  "decodeReplayId encodedReplayId =
     (case readBigUInt64BE encodedReplayId of
        Inl e \<Rightarrow> Inl e
      | Inr big \<Rightarrow> Inr (Number big))"

text \<open>
  \<^verbatim>\<open>encodeReplayId\<close>: \<^verbatim>\<open>buf.writeBigUInt64BE(BigInt(replayId), 0)\<close> on a fresh
  buffer of eight bytes.  The argument is the value of an integral \<^verbatim>\<open>number\<close>, for
  which \<^verbatim>\<open>BigInt\<close> is exact; an integer \<open>x\<close> reaches the function as the
  \<^verbatim>\<open>number\<close> \<open>Number x\<close> nearest to it.
\<close>

definition encodeReplayId :: "int \<Rightarrow> error + buffer" where
  "encodeReplayId replayId = writeBigUInt64BE replayId"

text \<open>The composition \<^verbatim>\<open>decodeReplayId(encodeReplayId(x))\<close>.\<close>

definition replayIdRoundTrip :: "int \<Rightarrow> error + int" where
  "replayIdRoundTrip x =
     (case encodeReplayId x of
        Inl e \<Rightarrow> Inl e
      | Inr buf \<Rightarrow> decodeReplayId buf)"

text \<open>
  The unsigned big-endian value of a byte sequence, as the wire format defines it:
  byte \<open>i\<close> of \<open>n\<close> bytes weighs \<open>256 ^ (n - 1 - i)\<close>.
\<close>

definition bigEndianValue :: "buffer \<Rightarrow> int" where
  "bigEndianValue bs = (\<Sum>i < length bs. uint (bs ! i) * 256 ^ (length bs - 1 - i))"

section \<open>Bitmap field resolver\<close>

text \<open>
  The Avro types the resolver looks at: a record type has fields, a union type has
  branch types (\<^verbatim>\<open>getTypes()\<close>), any other type has neither.  A field has a name
  (\<^verbatim>\<open>getName()\<close>, \<^verbatim>\<open>_name\<close>) and a type (\<^verbatim>\<open>_type\<close>).
\<close>

datatype avroType = RecordType "avroField list" | UnionType "avroType list" | OtherType
  and avroField = AvroField string avroType

fun getName :: "avroField \<Rightarrow> string" where
  "getName (AvroField name t) = name"

text \<open>\<^verbatim>\<open>str.replace(/c/g, r)\<close>: every occurrence of the character \<open>c\<close> becomes \<open>r\<close>.\<close>

definition replaceAll :: "char \<Rightarrow> string \<Rightarrow> string \<Rightarrow> string" where
  "replaceAll c r s = concat (map (\<lambda>x. if x = c then r else [x]) s)"

text \<open>
  \<^verbatim>\<open>hexToBin\<close>: \<^verbatim>\<open>hex.substring(2)\<close>, then the sixteen replacements in the order of
  the source.
\<close>

definition hexToBin :: "string \<Rightarrow> string" where
  "hexToBin hex =
     (let bin = drop 2 hex;
          bin = replaceAll (CHR ''0'') ''0000'' bin;
          bin = replaceAll (CHR ''1'') ''0001'' bin;
          bin = replaceAll (CHR ''2'') ''0010'' bin;
          bin = replaceAll (CHR ''3'') ''0011'' bin;
          bin = replaceAll (CHR ''4'') ''0100'' bin;
          bin = replaceAll (CHR ''5'') ''0101'' bin;
          bin = replaceAll (CHR ''6'') ''0110'' bin;
          bin = replaceAll (CHR ''7'') ''0111'' bin;
          bin = replaceAll (CHR ''8'') ''1000'' bin;
          bin = replaceAll (CHR ''9'') ''1001'' bin;
          bin = replaceAll (CHR ''A'') ''1010'' bin;
          bin = replaceAll (CHR ''B'') ''1011'' bin;
          bin = replaceAll (CHR ''C'') ''1100'' bin;
          bin = replaceAll (CHR ''D'') ''1101'' bin;
          bin = replaceAll (CHR ''E'') ''1110'' bin;
          bin = replaceAll (CHR ''F'') ''1111'' bin
      in bin)"

text \<open>
  \<^verbatim>\<open>getFieldNamesFromBitmap\<close>: the \<^verbatim>\<open>for\<close> loop over \<open>i\<close> is \<open>fieldNamesLoop\<close>, with
  the list \<^verbatim>\<open>fieldNames\<close> built so far as its last argument.
\<close>

function fieldNamesLoop ::
  "avroField list \<Rightarrow> string \<Rightarrow> nat \<Rightarrow> string list \<Rightarrow> string list" where
  "fieldNamesLoop fields binValue i fieldNames =
     (if i < length binValue \<and> i < length fields
      then fieldNamesLoop fields binValue (i + 1)
             (if binValue ! i = CHR ''1'' then fieldNames @ [getName (fields ! i)]
              else fieldNames)
      else fieldNames)"
  by pat_completeness auto
termination
  by (relation "measure (\<lambda>(fields, binValue, i, fieldNames). length fields - i)") auto

declare fieldNamesLoop.simps [simp del]

definition getFieldNamesFromBitmap :: "avroField list \<Rightarrow> string \<Rightarrow> string list" where
  "getFieldNamesFromBitmap fields fieldBitmapAsHex =
     (let binValue = hexToBin fieldBitmapAsHex;
          binValue = rev binValue
      in fieldNamesLoop fields binValue 0 [])"

text \<open>
  \<^verbatim>\<open>parseInt(str, 10)\<close>: leading white space is skipped, a sign is read, then the
  longest run of decimal digits; \<open>None\<close> is \<^verbatim>\<open>NaN\<close> (no digit).
\<close>

definition isWhiteSpace :: "char \<Rightarrow> bool" where
  "isWhiteSpace c = (c \<in> {CHR '' '', CHR 0x09, CHR 0x0A, CHR 0x0B, CHR 0x0C, CHR 0x0D})"

definition isDigit :: "char \<Rightarrow> bool" where
  "isDigit c = (48 \<le> (of_char c :: nat) \<and> (of_char c :: nat) \<le> 57)"

definition digitValue :: "char \<Rightarrow> int" where
  "digitValue c = int (of_char c) - 48"

definition parseInt :: "string \<Rightarrow> int option" where
  "parseInt str =
     (let s = dropWhile isWhiteSpace str;
          (sign, s) = (case s of
                         c # r \<Rightarrow> if c = CHR ''-'' then (- 1, r)
                                  else if c = CHR ''+'' then (1, r) else (1, s)
                       | [] \<Rightarrow> (1, s));
          digits = takeWhile isDigit s
      in if digits = [] then None
         else Some (sign * foldl (\<lambda>acc d. 10 * acc + digitValue d) 0 digits))"

text \<open>\<^verbatim>\<open>str.split(sep)\<close> for a separator of one character.\<close>

fun split :: "char \<Rightarrow> string \<Rightarrow> string list" where
  "split sep [] = [[]]"
| "split sep (c # cs) =
     (if c = sep then [] # split sep cs
      else (case split sep cs of
              p # ps \<Rightarrow> (c # p) # ps
            | [] \<Rightarrow> [[c]]))"

definition startsWith :: "string \<Rightarrow> string \<Rightarrow> bool" where
  "startsWith s p = (take (length p) s = p)"

definition includesChar :: "string \<Rightarrow> char \<Rightarrow> bool" where
  "includesChar s c = (c \<in> set s)"

text \<open>
  \<^verbatim>\<open>allFields[idx]\<close>: \<^verbatim>\<open>undefined\<close> (\<open>None\<close>) when the index is \<^verbatim>\<open>NaN\<close>, negative or
  not below the length.
\<close>

definition fieldAt :: "avroField list \<Rightarrow> int option \<Rightarrow> avroField option" where
  "fieldAt allFields idx =
     (case idx of
        None \<Rightarrow> None
      | Some i \<Rightarrow>
          if 0 \<le> i \<and> nat i < length allFields then Some (allFields ! nat i) else None)"

text \<open>
  \<^verbatim>\<open>getChildFields\<close>: reading \<^verbatim>\<open>_type\<close> of \<^verbatim>\<open>undefined\<close>, or calling \<^verbatim>\<open>getTypes\<close> on a
  type that is not a union, throws a \<^verbatim>\<open>TypeError\<close>.  The \<^verbatim>\<open>forEach\<close> over the
  branch types is the \<open>foldl\<close>.
\<close>

definition getChildFields :: "avroField option \<Rightarrow> error + avroField list" where
  "getChildFields parentField =
     (case parentField of
        None \<Rightarrow> Inl TypeError
      | Some (AvroField name (UnionType types)) \<Rightarrow>
          Inr (foldl (\<lambda>fields t. case t of RecordType fs \<Rightarrow> fields @ fs | _ \<Rightarrow> fields)
                 [] types)
      | Some _ \<Rightarrow> Inl TypeError)"

text \<open>
  \<^verbatim>\<open>parseFieldBitmaps\<close>.  \<open>compoundFields\<close> is the \<^verbatim>\<open>forEach\<close> over all the entries
  (the top-level entry included), with \<^verbatim>\<open>fieldNames\<close> as its last argument; an
  exception leaves the loop.
\<close>

fun compoundFields ::
  "avroField list \<Rightarrow> string list \<Rightarrow> string list \<Rightarrow> error + string list" where
  "compoundFields allFields [] fieldNames = Inr fieldNames"
| "compoundFields allFields (fieldBitmapAsHex # rest) fieldNames =
     (let bitmapMapStrings = split (CHR ''-'') fieldBitmapAsHex
      in if length bitmapMapStrings \<ge> 2 then
           (let parentField = fieldAt allFields (parseInt (bitmapMapStrings ! 0))
            in case getChildFields parentField of
                 Inl e \<Rightarrow> Inl e
               | Inr childFields \<Rightarrow>
                   (let childFieldNames =
                          getFieldNamesFromBitmap childFields (bitmapMapStrings ! 1)
                    in compoundFields allFields rest
                         (fieldNames @
                          map (\<lambda>fieldName. getName (the parentField) @ ''.'' @ fieldName)
                            childFieldNames)))
         else compoundFields allFields rest fieldNames)"

definition parseFieldBitmaps :: "avroField list \<Rightarrow> string list \<Rightarrow> error + string list" where
  "parseFieldBitmaps allFields fieldBitmapsAsHex =
     (if length fieldBitmapsAsHex = 0 then Inr []
      else
        let fieldNames =
              (if startsWith (fieldBitmapsAsHex ! 0) ''0x''
               then getFieldNamesFromBitmap allFields (fieldBitmapsAsHex ! 0)
               else [])
        in if length fieldBitmapsAsHex > 1 \<and>
              includesChar (fieldBitmapsAsHex ! (length fieldBitmapsAsHex - 1)) (CHR ''-'')
           then compoundFields allFields fieldBitmapsAsHex fieldNames
           else Inr fieldNames)"

subsection \<open>The resolution as the specification words it\<close>

text \<open>
  The specification's procedure for the top-level bitmap, written from its words:
  each hexadecimal digit (\<open>0\<close>-\<open>9\<close>, \<open>A\<close>-\<open>F\<close>, \<open>a\<close>-\<open>f\<close>) becomes its four binary
  digits, the digits are concatenated and reversed, and \<open>fields[i].name\<close> is emitted
  for each position \<open>i\<close> that holds a \<open>1\<close> and lies within the field list.
\<close>

definition hexDigitValue :: "char \<Rightarrow> nat option" where
  "hexDigitValue c =
     (let n = (of_char c :: nat)
      in if 48 \<le> n \<and> n \<le> 57 then Some (n - 48)
         else if 65 \<le> n \<and> n \<le> 70 then Some (n - 55)
         else if 97 \<le> n \<and> n \<le> 102 then Some (n - 87)
         else None)"

definition fourBits :: "nat \<Rightarrow> string" where
  "fourBits v = map (\<lambda>k. if odd (v div 2 ^ k) then CHR ''1'' else CHR ''0'') [3, 2, 1, 0]"

definition bitmapBits_spec :: "string \<Rightarrow> string" where
  "bitmapBits_spec digits =
     rev (concat (map (\<lambda>c. case hexDigitValue c of Some v \<Rightarrow> fourBits v | None \<Rightarrow> [])
                    digits))"

definition bitmapFieldNames_spec :: "avroField list \<Rightarrow> string \<Rightarrow> string list" where
  "bitmapFieldNames_spec fields digits =
     map (\<lambda>i. getName (fields ! i))
       (filter (\<lambda>i. i < length (bitmapBits_spec digits) \<and>
                     bitmapBits_spec digits ! i = CHR ''1'')
          [0 ..< length fields])"

text \<open>
  Two views of the code used in the proofs: what \<^verbatim>\<open>hexToBin\<close> makes of one character,
  and the names selected by a string of binary digits laid along the field list.
\<close>

definition hexDigitToBin :: "char \<Rightarrow> string" where
  "hexDigitToBin c =
     (if c = CHR ''0'' then ''0000'' else if c = CHR ''1'' then ''0001''
      else if c = CHR ''2'' then ''0010'' else if c = CHR ''3'' then ''0011''
      else if c = CHR ''4'' then ''0100'' else if c = CHR ''5'' then ''0101''
      else if c = CHR ''6'' then ''0110'' else if c = CHR ''7'' then ''0111''
      else if c = CHR ''8'' then ''1000'' else if c = CHR ''9'' then ''1001''
      else if c = CHR ''A'' then ''1010'' else if c = CHR ''B'' then ''1011''
      else if c = CHR ''C'' then ''1100'' else if c = CHR ''D'' then ''1101''
      else if c = CHR ''E'' then ''1110'' else if c = CHR ''F'' then ''1111''
      else [c])"

fun selectedNames :: "string \<Rightarrow> avroField list \<Rightarrow> string list" where
  "selectedNames (b # bs) (f # fs) =
     (if b = CHR ''1'' then getName f # selectedNames bs fs else selectedNames bs fs)"
| "selectedNames bs fs = []"

section \<open>Event decoding pipeline\<close>

subsection \<open>Flattening of single-property objects\<close>

text \<open>
  \<open>soleValue v\<close> is \<^verbatim>\<open>value[subKeys[0]]\<close> when \<^verbatim>\<open>Object.keys(value)\<close> has length one:
  the value of the only property of an object, or the only element of an array.
\<close>

fun soleValue :: "jsval \<Rightarrow> jsval option" where
  "soleValue (JObj [(k, v)]) = Some v"
| "soleValue (JArr [v]) = Some v"
| "soleValue _ = None"

lemma soleValue_size: "soleValue v = Some s \<Longrightarrow> size s < size v"
  by (induction v rule: soleValue.induct) auto

text \<open>
  \<^verbatim>\<open>flattenSinglePropertyObjects\<close>.  The source walks \<^verbatim>\<open>Object.entries(theObject)\<close> and
  assigns \<^verbatim>\<open>theObject[key] = subValue\<close> in place; each entry is assigned at most
  once and the walk reads the entries as they were, so the function maps over the
  entries.  On an array the keys are the indices, none of which is
  \<open>ChangeEventHeader\<close>.  A primitive value has no entry that is an object.
\<close>

function (sequential) flattenSinglePropertyObjects :: "jsval \<Rightarrow> jsval" where
  "flattenSinglePropertyObjects (JObj kvs) =
     JObj (map (\<lambda>(key, val).
        (key,
         if key \<noteq> ''ChangeEventHeader'' \<and> truthy val \<and> typeof val = ''object'' then
           (case soleValue val of
              Some subValue \<Rightarrow>
                if truthy subValue \<and> typeof subValue = ''object''
                then flattenSinglePropertyObjects subValue else subValue
            | None \<Rightarrow> val)
         else val)) kvs)"
| "flattenSinglePropertyObjects (JArr xs) =
     JArr (map (\<lambda>val.
         if truthy val \<and> typeof val = ''object'' then
           (case soleValue val of
              Some subValue \<Rightarrow>
                if truthy subValue \<and> typeof subValue = ''object''
                then flattenSinglePropertyObjects subValue else subValue
            | None \<Rightarrow> val)
         else val) xs)"
| "flattenSinglePropertyObjects v = v"
  by pat_completeness auto
termination
proof (relation "measure size", goal_cases)
  case 1
  show ?case by simp
next
  case (2 kvs x key val subValue)
  have "size val < size (JObj kvs)"
    using 2(1,2) by (induction kvs) auto
  with 2 show ?case by (auto dest!: soleValue_size)
next
  case (3 xs val subValue)
  have "size val < size (JArr xs)"
    using 3(1) by (induction xs) auto
  with 3 show ?case by (auto dest!: soleValue_size)
qed

text \<open>
  A single-key wrapper, as the specification calls it: an object with exactly one
  property.
\<close>

fun isSingleKeyWrapper :: "jsval \<Rightarrow> bool" where
  "isSingleKeyWrapper (JObj [(k, v)]) = True"
| "isSingleKeyWrapper _ = False"

subsection \<open>Property access\<close>

text \<open>
  \<^verbatim>\<open>obj[key]\<close> for the keys used by \<^verbatim>\<open>parseEvent\<close> (none of them is a property of a
  primitive or of an array): a \<^verbatim>\<open>TypeError\<close> on \<^verbatim>\<open>null\<close> and \<^verbatim>\<open>undefined\<close>,
  \<^verbatim>\<open>undefined\<close> where the property is missing.  \<^verbatim>\<open>obj[key] = v\<close> on an object
  replaces the property where it stands or appends it.
\<close>

fun getProp :: "jsval \<Rightarrow> string \<Rightarrow> error + jsval" where
  "getProp JUndefined key = Inl TypeError"
| "getProp JNull key = Inl TypeError"
| "getProp (JObj kvs) key = Inr (case map_of kvs key of Some v \<Rightarrow> v | None \<Rightarrow> JUndefined)"
| "getProp v key = Inr JUndefined"

fun setEntry :: "string \<Rightarrow> jsval \<Rightarrow> (string \<times> jsval) list \<Rightarrow> (string \<times> jsval) list" where
  "setEntry key v [] = [(key, v)]"
| "setEntry key v ((k, w) # kvs) =
     (if k = key then (k, v) # kvs else (k, w) # setEntry key v kvs)"

fun setProp :: "jsval \<Rightarrow> string \<Rightarrow> jsval \<Rightarrow> jsval" where
  "setProp (JObj kvs) key v = JObj (setEntry key v kvs)"
| "setProp obj key v = obj"

subsection \<open>Parsing one event\<close>

text \<open>
  A \<^verbatim>\<open>ProducerEvent\<close> (\<^verbatim>\<open>event.event\<close>) and a \<^verbatim>\<open>ConsumerEvent\<close> of the stream.
\<close>

record producerEvent =
  schemaId :: string
  payload :: buffer

record consumerEvent =
  event :: "producerEvent option"
  replayId :: buffer

text \<open>
  The schema object \<^verbatim>\<open>{ id, type }\<close>: \<open>getFields\<close> and \<open>fromBuffer\<close> are the two
  methods of \<^verbatim>\<open>schema.type\<close> that the client calls.  The Avro decoder \<open>fromBuffer\<close>
  is a capability of the environment; it may throw.
\<close>

record avroSchema =
  schemaKey :: string
  getFields :: "avroField list"
  fromBuffer :: "buffer \<Rightarrow> error + jsval"

text \<open>The object \<^verbatim>\<open>{ replayId, payload }\<close> that \<^verbatim>\<open>parseEvent\<close> returns.\<close>

record parsedEvent =
  parsedReplayId :: int
  parsedPayload :: jsval

text \<open>
  The bitmaps of one attribute of the change event header.  The payload schema types
  them as arrays of strings (\<^verbatim>\<open>ParsedPayloadSchema\<close>); any other value is taken as a
  \<^verbatim>\<open>TypeError\<close> of \<^verbatim>\<open>parseFieldBitmaps\<close>.
\<close>

fun asString :: "jsval \<Rightarrow> string option" where
  "asString (JStr s) = Some s"
| "asString v = None"

fun asStringArray :: "jsval \<Rightarrow> string list option" where
  "asStringArray (JArr xs) =
     (if list_all (\<lambda>x. asString x \<noteq> None) xs then Some (map (\<lambda>x. the (asString x)) xs)
      else None)"
| "asStringArray v = None"

text \<open>
  One of the three statements
  \<^verbatim>\<open>changeEventHeader.f = parseFieldBitmaps(allFields, changeEventHeader.f)\<close>.
\<close>

definition resolveHeaderField :: "avroField list \<Rightarrow> jsval \<Rightarrow> string \<Rightarrow> error + jsval" where
  "resolveHeaderField allFields changeEventHeader field =
     (case getProp changeEventHeader field of
        Inl e \<Rightarrow> Inl e
      | Inr bitmaps \<Rightarrow>
          (case asStringArray bitmaps of
             None \<Rightarrow> Inl TypeError
           | Some fieldBitmapsAsHex \<Rightarrow>
               (case parseFieldBitmaps allFields fieldBitmapsAsHex of
                  Inl e \<Rightarrow> Inl e
                | Inr fieldNames \<Rightarrow>
                    Inr (setProp changeEventHeader field (JArr (map JStr fieldNames))))))"

text \<open>
  The block \<^verbatim>\<open>if (payload.ChangeEventHeader) { ... }\<close> of \<^verbatim>\<open>parseEvent\<close>; the second
  \<^verbatim>\<open>catch\<close> carries the message of the first, as in the source.
\<close>

definition parseChangeEventHeader :: "avroField list \<Rightarrow> jsval \<Rightarrow> error + jsval" where
  "parseChangeEventHeader allFields payloadValue =
     (case getProp payloadValue ''ChangeEventHeader'' of
        Inl e \<Rightarrow> Inl e
      | Inr changeEventHeader \<Rightarrow>
          if truthy changeEventHeader then
            (case resolveHeaderField allFields changeEventHeader ''nulledFields'' of
               Inl e \<Rightarrow> Inl (ParseFailure ''Failed to parse nulledFields'' e)
             | Inr h1 \<Rightarrow>
                 (case resolveHeaderField allFields h1 ''diffFields'' of
                    Inl e \<Rightarrow> Inl (ParseFailure ''Failed to parse nulledFields'' e)
                  | Inr h2 \<Rightarrow>
                      (case resolveHeaderField allFields h2 ''changedFields'' of
                         Inl e \<Rightarrow> Inl (ParseFailure ''Failed to parse changedFields'' e)
                       | Inr h3 \<Rightarrow> Inr (setProp payloadValue ''ChangeEventHeader'' h3))))
          else Inr payloadValue)"

definition parseEvent :: "avroSchema \<Rightarrow> consumerEvent \<Rightarrow> error + parsedEvent" where
  "parseEvent schema ev =
     (case event ev of
        None \<Rightarrow>
          Inl (ParseFailure ''Failed to process the event due to missing event data''
                 (Error ''Event data is missing in the response''))
      | Some producer \<Rightarrow>
          (let allFields = getFields schema
           in case decodeReplayId (replayId ev) of
                Inl e \<Rightarrow> Inl e
              | Inr decoded \<Rightarrow>
                  (case fromBuffer schema (payload producer) of
                     Inl e \<Rightarrow> Inl e
                   | Inr decodedPayload \<Rightarrow>
                       (case parseChangeEventHeader allFields decodedPayload of
                          Inl e \<Rightarrow> Inl e
                        | Inr withHeader \<Rightarrow>
                            Inr \<lparr>parsedReplayId = decoded,
                                 parsedPayload = flattenSinglePropertyObjects withHeader\<rparr>))))"

section \<open>Subscription and flow-control engine\<close>

definition MAX_EVENT_BATCH_SIZE :: int where
  "MAX_EVENT_BATCH_SIZE = 100"

text \<open>
  A message of the stream (\<^verbatim>\<open>FetchResponse\<close>).  \<open>events\<close> is \<open>None\<close> when the
  property is \<^verbatim>\<open>undefined\<close> or \<^verbatim>\<open>null\<close>, and \<open>Some\<close> of an array otherwise, the empty
  array included.  \<open>latestReplayId\<close> arrives as bytes; the keepalive branch assigns
  the decoded number to the same property.
\<close>

datatype replayField = Encoded buffer | Decoded int

record fetchResponse =
  events :: "consumerEvent list option"
  latestReplayId :: replayField
  rpcId :: string
  pendingNumRequested :: int

text \<open>
  \<^verbatim>\<open>EventParseError\<close> with its five constructor arguments, and the signals an emitter
  sends on the channels \<open>data\<close>, \<open>error\<close>, \<open>keepalive\<close> and \<open>lastevent\<close>.
\<close>

record eventParseError =
  message :: string
  cause :: error
  errorReplayId :: "int option"
  errorEvent :: "consumerEvent option"
  errorLatestReplayId :: "int option"

datatype signal =
    DataSignal parsedEvent
  | ErrorSignal eventParseError
  | KeepaliveSignal fetchResponse
  | LastEventSignal

text \<open>
  Modelled from the spec: the class \<^verbatim>\<open>PubSubEventEmitter\<close>
  (\<^verbatim>\<open>utils/pubSubEventEmitter\<close>) is not among the sources.  The specification gives
  an event source a topic name, a requested and a received counter; the list
  \<open>emitted\<close> records the signals in the order they were sent to the consumer.
  The consumer's listeners are outside the model: a signal sent is a signal
  recorded, and sending never throws.
\<close>

record pubSubEventEmitter =
  topicName :: string
  requestedEventCount :: int
  receivedEventCount :: int
  emitted :: "signal list"

text \<open>
  Modelled from the spec: the constructor of the missing \<^verbatim>\<open>PubSubEventEmitter\<close>; a
  fresh event source has received nothing and emitted nothing.
\<close>

definition newPubSubEventEmitter :: "string \<Rightarrow> int \<Rightarrow> pubSubEventEmitter" where
  "newPubSubEventEmitter topic numRequested =
     \<lparr>topicName = topic, requestedEventCount = numRequested, receivedEventCount = 0,
      emitted = []\<rparr>"

text \<open>
  Modelled from the spec: which signals of the missing \<^verbatim>\<open>PubSubEventEmitter.emit\<close>
  count as a received event.  The specification says "After each event, increment
  the received counter", for an event emitted as \<open>data\<close> and for one reported as a
  decode \<open>error\<close> alike.
\<close>

fun countsAsEvent :: "signal \<Rightarrow> bool" where
  "countsAsEvent (DataSignal e) = True"
| "countsAsEvent (ErrorSignal e) = True"
| "countsAsEvent s = False"

text \<open>
  Modelled from the spec: the method \<^verbatim>\<open>emit\<close> of the missing
  \<^verbatim>\<open>PubSubEventEmitter\<close>; it sends the signal and increments the received counter
  after each event.
\<close>

definition emit :: "pubSubEventEmitter \<Rightarrow> signal \<Rightarrow> pubSubEventEmitter" where
  "emit emitter s =
     emitter\<lparr>receivedEventCount :=
                 receivedEventCount emitter + (if countsAsEvent s then 1 else 0),
             emitted := emitted emitter @ [s]\<rparr>"

text \<open>
  Modelled from the spec: the method \<^verbatim>\<open>_resetEventCount\<close> of the missing
  \<^verbatim>\<open>PubSubEventEmitter\<close>: "Resets the event source's received counter to zero and
  its requested counter to \<open>count\<close>".
\<close>

definition resetEventCount :: "pubSubEventEmitter \<Rightarrow> int \<Rightarrow> pubSubEventEmitter" where
  "resetEventCount emitter newRequestedEventCount =
     emitter\<lparr>requestedEventCount := newRequestedEventCount, receivedEventCount := 0\<rparr>"

text \<open>
  A request written on a stream, and the state of the client: \<open>connected\<close> says
  whether \<^verbatim>\<open>this.#client\<close> is set, \<open>subscriptions\<close> maps a topic name to its open
  stream, a stream being the list of the requests written on it so far;
  \<open>warnings\<close> are the messages given to \<^verbatim>\<open>logger.warn\<close>.
\<close>

record fetchRequest =
  fetchTopicName :: string
  fetchNumRequested :: int
  fetchReplayPreset :: "nat option"
  fetchReplayId :: "buffer option"

text \<open>
  Modelled from the spec: the class \<^verbatim>\<open>SchemaCache\<close> (\<^verbatim>\<open>utils/schemaCache\<close>) is not
  among the sources; the field \<open>schemaCache\<close> is the specification's "keyed store
  mapping a schema identifier to a decoded schema handle".
\<close>

record client =
  connected :: bool
  subscriptions :: "string \<rightharpoonup> fetchRequest list"
  schemaCache :: "string \<rightharpoonup> avroSchema"
  warnings :: "string list"

text \<open>The argument of \<^verbatim>\<open>#subscribe\<close>.\<close>

record subscribeRequest =
  reqTopicName :: string
  numRequested :: jsval
  replayPreset :: "nat option"
  reqReplayId :: "buffer option"

text \<open>
  \<^verbatim>\<open>Number.isSafeInteger\<close> (an integral value of magnitude at most \<open>2^53 - 1\<close>),
  the comparison \<^verbatim>\<open>numRequested < 1\<close>, and the integer a safe integer stands for.
\<close>

fun isSafeInteger :: "number \<Rightarrow> bool" where
  "isSafeInteger (Finite q) = (of_int \<lfloor>q\<rfloor> = q \<and> \<bar>q\<bar> \<le> 9007199254740991)"
| "isSafeInteger n = False"

fun lessThanOne :: "number \<Rightarrow> bool" where
  "lessThanOne (Finite q) = (q < 1)"
| "lessThanOne NegInfinity = True"
| "lessThanOne n = False"

fun integerOf :: "number \<Rightarrow> int" where
  "integerOf (Finite q) = \<lfloor>q\<rfloor>"
| "integerOf n = 0"

text \<open>
  The block "Check number of requested events" of \<^verbatim>\<open>#subscribe\<close>: the result is
  \<^verbatim>\<open>isInfiniteEventRequest\<close>, the number of events to request, and whether the
  warning about the batch size is logged.
\<close>

definition checkNumRequested :: "jsval \<Rightarrow> error + (bool \<times> int \<times> bool)" where
  "checkNumRequested requested =
     (if requested = JNull \<or> requested = JUndefined then
        Inr (True, MAX_EVENT_BATCH_SIZE, False)
      else
        (case requested of
           JNum n \<Rightarrow>
             if \<not> isSafeInteger n \<or> lessThanOne n then
               Inl (Error ''Expected an integer greater than 1 for number of requested events'')
             else Inr (False, integerOf n, integerOf n > MAX_EVENT_BATCH_SIZE)
         | _ \<Rightarrow> Inl (Error ''Expected a number type for number of requested events'')))"

text \<open>
  \<^verbatim>\<open>#subscribe\<close> up to the creation of the emitter; \<open>subscribe\<close> wraps every
  exception of the body as the \<^verbatim>\<open>catch\<close> does.  The warning is logged before the
  connection is checked, so the client state is returned in both cases.  The
  handlers that \<^verbatim>\<open>#subscribe\<close> registers on the stream are \<open>onData\<close> below, with the
  emitter and the flag returned here.  The message written on the stream is the
  request with the checked count (\<^verbatim>\<open>FetchRequest.fromPartial\<close> only fills in the
  defaults of the absent properties).
\<close>

definition subscribeBody ::
  "client \<Rightarrow> subscribeRequest \<Rightarrow> (error + pubSubEventEmitter \<times> bool) \<times> client" where
  "subscribeBody c subscribeRequest =
     (case checkNumRequested (numRequested subscribeRequest) of
        Inl e \<Rightarrow> (Inl e, c)
      | Inr (isInfiniteEventRequest, requested, warn) \<Rightarrow>
          (let c = (if warn
                    then c\<lparr>warnings := warnings c @
                           [''The number of requested events for '' @
                            reqTopicName subscribeRequest @
                            '' exceeds max event batch size (100).'']\<rparr>
                    else c)
           in if \<not> connected c then
                (Inl (Error ''Pub/Sub API client is not connected.''), c)
              else
                (let subscription =
                       (case subscriptions c (reqTopicName subscribeRequest) of
                          Some stream \<Rightarrow> stream
                        | None \<Rightarrow> []);
                     subscribeRequest2 =
                       \<lparr>fetchTopicName = reqTopicName subscribeRequest,
                        fetchNumRequested = requested,
                        fetchReplayPreset = replayPreset subscribeRequest,
                        fetchReplayId = reqReplayId subscribeRequest\<rparr>;
                     c = c\<lparr>subscriptions := (subscriptions c)
                            (reqTopicName subscribeRequest \<mapsto>
                               subscription @ [subscribeRequest2])\<rparr>;
                     eventEmitter =
                       newPubSubEventEmitter (reqTopicName subscribeRequest) requested
                 in (Inr (eventEmitter, isInfiniteEventRequest), c))))"

definition subscribe ::
  "client \<Rightarrow> subscribeRequest \<Rightarrow> (error + pubSubEventEmitter \<times> bool) \<times> client" where
  "subscribe c subscribeRequest =
     (case subscribeBody c subscribeRequest of
        (Inl e, c') \<Rightarrow> (Inl (ErrorCause ''Failed to subscribe to events for topic'' e), c')
      | (Inr r, c') \<Rightarrow> (Inr r, c'))"

text \<open>\<^verbatim>\<open>requestAdditionalEvents\<close>.\<close>

definition requestAdditionalEvents ::
  "client \<Rightarrow> pubSubEventEmitter \<Rightarrow> int \<Rightarrow> error + client \<times> pubSubEventEmitter" where
  "requestAdditionalEvents c eventEmitter requested =
     (case subscriptions c (topicName eventEmitter) of
        None \<Rightarrow>
          Inl (Error ''Failed to request additional events, no active subscription found.'')
      | Some subscription \<Rightarrow>
          Inr (c\<lparr>subscriptions := (subscriptions c)
                   (topicName eventEmitter \<mapsto>
                      subscription @
                      [\<lparr>fetchTopicName = topicName eventEmitter,
                        fetchNumRequested = requested,
                        fetchReplayPreset = None, fetchReplayId = None\<rparr>])\<rparr>,
               resetEventCount eventEmitter requested))"

text \<open>
  \<^verbatim>\<open>#getEventSchemaFromId\<close>.  \<open>getSchema\<close> is the capability of the environment that
  \<^verbatim>\<open>#fetchEventSchemaFromIdWithClient\<close> wraps (the remote call and \<^verbatim>\<open>avro.parse\<close>); the
  schema it resolves is stored under the identifier that was asked for.
\<close>

definition getEventSchemaFromId ::
  "(string \<Rightarrow> error + avroSchema) \<Rightarrow> client \<Rightarrow> string \<Rightarrow> (error + avroSchema) \<times> client" where
  "getEventSchemaFromId getSchema c sid =
     (case schemaCache c sid of
        Some schema \<Rightarrow> (Inr schema, c)
      | None \<Rightarrow>
          (case getSchema sid of
             Inl e \<Rightarrow> (Inl (ErrorCause ''Failed to load schema with ID'' e), c)
           | Inr schema \<Rightarrow> (Inr schema, c\<lparr>schemaCache := (schemaCache c)(sid \<mapsto> schema)\<rparr>)))"

text \<open>
  The \<^verbatim>\<open>try\<close> block of the loop over \<^verbatim>\<open>data.events\<close>, up to the parsed event:
  \<^verbatim>\<open>event.event.schemaId\<close> throws a \<^verbatim>\<open>TypeError\<close> when \<^verbatim>\<open>event.event\<close> is missing.
\<close>

definition tryParseEvent ::
  "(string \<Rightarrow> error + avroSchema) \<Rightarrow> client \<Rightarrow> consumerEvent \<Rightarrow> (error + parsedEvent) \<times> client"
  where
  "tryParseEvent getSchema c ev =
     (case event ev of
        None \<Rightarrow> (Inl TypeError, c)
      | Some producer \<Rightarrow>
          (case getEventSchemaFromId getSchema c (schemaId producer) of
             (Inl e, c') \<Rightarrow> (Inl e, c')
           | (Inr schema, c') \<Rightarrow> (parseEvent schema ev, c')))"

text \<open>
  The \<^verbatim>\<open>catch\<close> block: the error record built from the exception, the replay
  position of the event when it decodes, the event and the latest replay position of
  the batch.  The message depends on the truthiness of the decoded position.
\<close>

definition parseErrorOf :: "error \<Rightarrow> consumerEvent \<Rightarrow> int \<Rightarrow> eventParseError" where
  "parseErrorOf err ev latest =
     (let decodedReplayId = (case decodeReplayId (replayId ev) of
                               Inr r \<Rightarrow> Some r
                             | Inl e \<Rightarrow> None);
          msg = (if decodedReplayId \<noteq> None \<and> decodedReplayId \<noteq> Some 0
                 then ''Failed to parse event with replay ID''
                 else ''Failed to parse event with unknown replay ID'')
      in \<lparr>message = msg, cause = err, errorReplayId = decodedReplayId,
          errorEvent = Some ev, errorLatestReplayId = Some latest\<rparr>)"

text \<open>
  The signal that reports one event, from the outcome of the \<^verbatim>\<open>try\<close> block: \<open>data\<close>
  with the parsed event, or \<open>error\<close> with the error record (used to state the
  properties of the loop).
\<close>

definition eventSignal :: "error + parsedEvent \<Rightarrow> consumerEvent \<Rightarrow> int \<Rightarrow> signal" where
  "eventSignal res ev latest =
     (case res of
        Inr p \<Rightarrow> DataSignal p
      | Inl err \<Rightarrow> ErrorSignal (parseErrorOf err ev latest))"

text \<open>
  The body of the loop \<^verbatim>\<open>for (const event of data.events)\<close>.  The call of
  \<^verbatim>\<open>requestAdditionalEvents\<close> is not awaited: when it throws, the rejection is lost
  and the loop goes on with the state as it was.
\<close>

definition processEvent ::
  "(string \<Rightarrow> error + avroSchema) \<Rightarrow> bool \<Rightarrow> int \<Rightarrow>
   client \<times> pubSubEventEmitter \<Rightarrow> consumerEvent \<Rightarrow> client \<times> pubSubEventEmitter" where
  "processEvent getSchema isInfiniteEventRequest latest st ev =
     (case st of (c, eventEmitter) \<Rightarrow>
        (case tryParseEvent getSchema c ev of (parsed, c) \<Rightarrow>
           (let eventEmitter =
                  (case parsed of
                     Inr parsedEvent \<Rightarrow> emit eventEmitter (DataSignal parsedEvent)
                   | Inl err \<Rightarrow> emit eventEmitter (ErrorSignal (parseErrorOf err ev latest)))
            in if receivedEventCount eventEmitter = requestedEventCount eventEmitter then
                 (if isInfiniteEventRequest then
                    (case requestAdditionalEvents c eventEmitter MAX_EVENT_BATCH_SIZE of
                       Inr st' \<Rightarrow> st'
                     | Inl e \<Rightarrow> (c, eventEmitter))
                  else (c, emit eventEmitter LastEventSignal))
               else (c, eventEmitter))))"

fun processEvents ::
  "(string \<Rightarrow> error + avroSchema) \<Rightarrow> bool \<Rightarrow> int \<Rightarrow>
   client \<times> pubSubEventEmitter \<Rightarrow> consumerEvent list \<Rightarrow> client \<times> pubSubEventEmitter" where
  "processEvents getSchema isInfiniteEventRequest latest st [] = st"
| "processEvents getSchema isInfiniteEventRequest latest st (ev # evs) =
     processEvents getSchema isInfiniteEventRequest latest
       (processEvent getSchema isInfiniteEventRequest latest st ev) evs"

text \<open>
  The handler of the stream's \<open>data\<close> event.  When the latest replay position does
  not decode, the handler stops with the exception and nothing is emitted.  One run
  of the handler is taken as a whole: the messages of a stream are handled one after
  the other.
\<close>

definition onData ::
  "(string \<Rightarrow> error + avroSchema) \<Rightarrow> bool \<Rightarrow> client \<times> pubSubEventEmitter \<Rightarrow>
   fetchResponse \<Rightarrow> error + client \<times> pubSubEventEmitter" where
  "onData getSchema isInfiniteEventRequest st data =
     (case (case latestReplayId data of
              Encoded buf \<Rightarrow> decodeReplayId buf
            | Decoded n \<Rightarrow> Inl TypeError) of
        Inl e \<Rightarrow> Inl e
      | Inr latest \<Rightarrow>
          (case events data of
             Some evs \<Rightarrow> Inr (processEvents getSchema isInfiniteEventRequest latest st evs)
           | None \<Rightarrow>
               (case st of (c, eventEmitter) \<Rightarrow>
                  Inr (c, emit eventEmitter
                            (KeepaliveSignal (data\<lparr>latestReplayId := Decoded latest\<rparr>))))))"

text \<open>The signals of the channels \<open>data\<close> and \<open>error\<close>: one per event of a batch.\<close>

fun isEventSignal :: "signal \<Rightarrow> bool" where
  "isEventSignal (DataSignal e) = True"
| "isEventSignal (ErrorSignal e) = True"
| "isEventSignal s = False"

section \<open>Properties of the replay position codec\<close>

lemma length_writeBigUIntBE [simp]: "length (writeBigUIntBE k v) = k"
  by (induction k) auto

lemma readBigUIntBE_write: "readBigUIntBE (writeBigUIntBE k v) = v mod 256 ^ k"
proof (induction k)
  case 0
  show ?case by simp
next
  case (Suc k)
  have "uint (of_int (v div 256 ^ k) :: byte) = (v div 256 ^ k) mod 256"
    by (simp add: uint_word_of_int)
  moreover have "v mod 256 ^ Suc k = 256 ^ k * (v div 256 ^ k mod 256) + v mod 256 ^ k"
    using zmod_zmult2_eq [of 256 v "256 ^ k"] by (simp add: mult.commute)
  ultimately show ?case using Suc
    by (simp del: power_Suc)
qed

lemma readBigUIntBE_bigEndianValue: "readBigUIntBE bs = bigEndianValue bs"
proof (induction bs)
  case Nil
  show ?case by (simp add: bigEndianValue_def)
next
  case (Cons b bs)
  have "(\<Sum>i < Suc (length bs). uint ((b # bs) ! i) * 256 ^ (Suc (length bs) - 1 - i)) =
        uint b * 256 ^ length bs + (\<Sum>i < length bs. uint (bs ! i) * 256 ^ (length bs - 1 - i))"
    by (simp add: sum.lessThan_Suc_shift del: sum.lessThan_Suc)
  with Cons show ?case by (simp add: bigEndianValue_def)
qed

lemma Number_exact: "n \<le> 2 ^ 53 \<Longrightarrow> Number n = n"
proof (cases "n < 2 ^ 53")
  case True
  then show ?thesis by (simp add: Number_def)
next
  case False
  assume "n \<le> 2 ^ 53"
  with False have n: "n = 9007199254740992" by simp
  show ?thesis unfolding n by code_simp
qed

lemma replayIdRoundTrip_Number:
  "0 \<le> x \<Longrightarrow> x < 2 ^ 64 \<Longrightarrow> replayIdRoundTrip x = Inr (Number x)"
  by (simp add: replayIdRoundTrip_def encodeReplayId_def writeBigUInt64BE_def
      decodeReplayId_def readBigUInt64BE_def readBigUIntBE_write)

text \<open>
  C2 (as stated): the round trip \<open>decode (encode x) = x\<close> for every integer \<open>x\<close> of
  \<open>[0, 2^63)\<close>.  It fails at the position \<open>x = 2^53 + 1\<close>.  The wire form of that
  position, \<open>00 20 00 00 00 00 00 01\<close>, decodes to \<open>2^53\<close>, because \<^verbatim>\<open>decodeReplayId\<close>
  returns a \<^verbatim>\<open>number\<close>; and the \<^verbatim>\<open>number\<close> that stands for \<open>x\<close> in a call of
  \<^verbatim>\<open>encodeReplayId\<close> is already \<open>2^53\<close>, which the round trip returns.
\<close>

theorem C2_roundtrip_counterexample:
  "bigEndianValue [0, 32, 0, 0, 0, 0, 0, 1] = 9007199254740993 \<and>
   decodeReplayId [0, 32, 0, 0, 0, 0, 0, 1] = Inr 9007199254740992 \<and>
   Number 9007199254740993 = 9007199254740992 \<and>
   replayIdRoundTrip (Number 9007199254740993) = Inr 9007199254740992 \<and>
   (9007199254740992 :: int) \<noteq> 9007199254740993 \<and>
   (0 :: int) \<le> 9007199254740993 \<and> (9007199254740993 :: int) < 2 ^ 63"
proof -
  have "bigEndianValue [0, 32, 0, 0, 0, 0, 0, 1] = 9007199254740993"
    unfolding readBigUIntBE_bigEndianValue [symmetric] by simp
  moreover have "decodeReplayId [0, 32, 0, 0, 0, 0, 0, 1] = Inr 9007199254740992"
    by code_simp
  moreover have "Number 9007199254740993 = 9007199254740992"
    by code_simp
  moreover have "replayIdRoundTrip (Number 9007199254740993) = Inr 9007199254740992"
    by code_simp
  ultimately show ?thesis by simp
qed

text \<open>
  C2 (amended): for every integer \<open>x\<close> of \<open>[0, 2^63)\<close> that a \<^verbatim>\<open>number\<close> holds exactly
  (every \<open>x \<le> 2^53\<close>, and above it every \<open>x\<close> with \<open>Number x = x\<close>),
  \<open>decodeReplayId (encodeReplayId x)\<close> returns \<open>x\<close>.
\<close>

theorem C2_roundtrip_exact:
  assumes "0 \<le> x" and "x < 2 ^ 63" and "x \<le> 2 ^ 53 \<or> Number x = x"
  shows "replayIdRoundTrip x = Inr x"
proof -
  from assms(2) have "x < 2 ^ 64" by simp
  with assms(1) have "replayIdRoundTrip x = Inr (Number x)"
    by (rule replayIdRoundTrip_Number)
  moreover from assms(3) have "Number x = x"
    using Number_exact by blast
  ultimately show ?thesis by simp
qed

theorem C2_roundtrip_exact_witness:
  "replayIdRoundTrip 9007199254740992 = Inr 9007199254740992 \<and>
   replayIdRoundTrip 4611686018427387904 = Inr 4611686018427387904"
proof -
  have a: "Number 4611686018427387904 = 4611686018427387904" by code_simp
  have "replayIdRoundTrip 9007199254740992 = Inr 9007199254740992"
    by (rule C2_roundtrip_exact) simp_all
  moreover have "replayIdRoundTrip 4611686018427387904 = Inr 4611686018427387904"
    by (rule C2_roundtrip_exact) (simp_all add: a)
  ultimately show ?thesis by simp
qed

text \<open>
  C8 (as stated): \<^verbatim>\<open>decodeReplayId\<close> fails on every buffer whose length is not exactly
  eight bytes, and returns the big-endian value of an eight-byte buffer.  A buffer
  of nine bytes is decoded (from its first eight bytes), and the eight-byte buffer
  \<open>00 20 00 00 00 00 00 03\<close>, of value \<open>2^53 + 3\<close>, decodes to \<open>2^53 + 4\<close>.
\<close>

theorem C8_decode_length_counterexample:
  "decodeReplayId [0, 0, 0, 0, 0, 0, 0, 5, 9] = Inr 5 \<and>
   length [0, 0, 0, 0, 0, 0, 0, 5, 9 :: byte] \<noteq> 8 \<and>
   bigEndianValue [0, 32, 0, 0, 0, 0, 0, 3] = 9007199254740995 \<and>
   decodeReplayId [0, 32, 0, 0, 0, 0, 0, 3] = Inr 9007199254740996"
proof -
  have "bigEndianValue [0, 32, 0, 0, 0, 0, 0, 3] = 9007199254740995"
    unfolding readBigUIntBE_bigEndianValue [symmetric] by simp
  moreover have "decodeReplayId [0, 0, 0, 0, 0, 0, 0, 5, 9] = Inr 5"
    by code_simp
  moreover have "decodeReplayId [0, 32, 0, 0, 0, 0, 0, 3] = Inr 9007199254740996"
    by code_simp
  ultimately show ?thesis by simp
qed

text \<open>
  C8 (amended): \<^verbatim>\<open>decodeReplayId\<close> fails (with a \<^verbatim>\<open>RangeError\<close>) exactly on the
  buffers shorter than eight bytes; on a buffer of eight bytes or more it returns the
  \<^verbatim>\<open>number\<close> nearest to the big-endian unsigned value of the first eight bytes, which
  is that value itself whenever the value is at most \<open>2^53\<close>.
\<close>

theorem C8_decode_total:
  "(length buf < 8 \<longrightarrow> decodeReplayId buf = Inl RangeError) \<and>
   (8 \<le> length buf \<longrightarrow>
      decodeReplayId buf = Inr (Number (bigEndianValue (take 8 buf))) \<and>
      (bigEndianValue (take 8 buf) \<le> 2 ^ 53 \<longrightarrow>
         decodeReplayId buf = Inr (bigEndianValue (take 8 buf))))"
  by (simp add: decodeReplayId_def readBigUInt64BE_def readBigUIntBE_bigEndianValue
      Number_exact)

theorem C8_decode_total_witness:
  "decodeReplayId [1, 2, 3] = Inl RangeError \<and>
   decodeReplayId [0, 0, 0, 0, 0, 0, 1, 2] = Inr 258 \<and>
   decodeReplayId [0, 0, 0, 0, 0, 0, 1, 2, 7, 7] = Inr 258"
proof -
  have v: "bigEndianValue [0, 0, 0, 0, 0, 0, 1, 2] = 258"
    unfolding readBigUIntBE_bigEndianValue [symmetric] by simp
  have "decodeReplayId [1, 2, 3] = Inl RangeError"
    using C8_decode_total [of "[1, 2, 3]"] by simp
  moreover have "decodeReplayId [0, 0, 0, 0, 0, 0, 1, 2] =
      Inr (bigEndianValue (take 8 [0, 0, 0, 0, 0, 0, 1, 2]))"
    by (rule C8_decode_total [THEN conjunct2, THEN mp, THEN conjunct2, THEN mp])
      (simp_all add: v)
  moreover have "decodeReplayId [0, 0, 0, 0, 0, 0, 1, 2, 7, 7] =
      Inr (bigEndianValue (take 8 [0, 0, 0, 0, 0, 0, 1, 2, 7, 7]))"
    by (rule C8_decode_total [THEN conjunct2, THEN mp, THEN conjunct2, THEN mp])
      (simp_all add: v)
  ultimately show ?thesis by (simp add: v)
qed

section \<open>Properties of the bitmap field resolver\<close>

lemma replaceAll_Nil [simp]: "replaceAll c r [] = []"
  by (simp add: replaceAll_def)

lemma replaceAll_Cons [simp]:
  "replaceAll c r (x # xs) = (if x = c then r else [x]) @ replaceAll c r xs"
  by (simp add: replaceAll_def)

lemma replaceAll_append [simp]:
  "replaceAll c r (xs @ ys) = replaceAll c r xs @ replaceAll c r ys"
  by (simp add: replaceAll_def)

text \<open>
  The sixteen replacements act on each character on its own: the binary digits a
  replacement writes are never the target of a later one.
\<close>

lemma hexToBin_Cons: "hexToBin (p # q # x # xs) = hexDigitToBin x @ hexToBin (p # q # xs)"
  by (simp add: hexToBin_def hexDigitToBin_def Let_def)

lemma hexToBin_map: "hexToBin (p # q # xs) = concat (map hexDigitToBin xs)"
proof (induction xs)
  case Nil
  show ?case by (simp add: hexToBin_def)
next
  case (Cons x xs)
  then show ?case by (simp add: hexToBin_Cons)
qed

lemma hexDigitToBin_upper:
  "c \<in> set ''0123456789ABCDEF'' \<Longrightarrow>
   hexDigitToBin c = (case hexDigitValue c of Some v \<Rightarrow> fourBits v | None \<Rightarrow> [])"
  apply simp
  apply (elim disjE; simp add: hexDigitToBin_def hexDigitValue_def fourBits_def)
  done

lemma hexDigitToBin_lower: "c \<in> set ''abcdef'' \<Longrightarrow> hexDigitToBin c = [c]"
  apply simp
  apply (elim disjE; simp add: hexDigitToBin_def)
  done

lemma fieldNamesLoop_filter:
  "fieldNamesLoop flds bin i acc =
     acc @ map (\<lambda>j. getName (flds ! j))
             (filter (\<lambda>j. bin ! j = CHR ''1'') [i ..< min (length bin) (length flds)])"
proof (induction flds bin i acc rule: fieldNamesLoop.induct)
  case (1 flds binValue i fieldNames)
  show ?case
  proof (cases "i < length binValue \<and> i < length flds")
    case True
    then have "[i ..< min (length binValue) (length flds)] =
        i # [i + 1 ..< min (length binValue) (length flds)]"
      by (simp add: upt_conv_Cons)
    with True 1 show ?thesis
      by (subst fieldNamesLoop.simps) simp
  next
    case False
    then show ?thesis
      by (subst fieldNamesLoop.simps) auto
  qed
qed

lemma fieldNamesLoop_selectedNames:
  "fieldNamesLoop flds bin i acc = acc @ selectedNames (drop i bin) (drop i flds)"
proof (induction flds bin i acc rule: fieldNamesLoop.induct)
  case (1 flds binValue i fieldNames)
  show ?case
  proof (cases "i < length binValue \<and> i < length flds")
    case True
    then have "drop i binValue = binValue ! i # drop (Suc i) binValue"
      and "drop i flds = flds ! i # drop (Suc i) flds"
      by (simp_all add: Cons_nth_drop_Suc)
    with True 1 show ?thesis
      by (subst fieldNamesLoop.simps) simp
  next
    case False
    then have "drop i binValue = [] \<or> drop i flds = []" by auto
    then have "selectedNames (drop i binValue) (drop i flds) = []"
      by (cases "drop i binValue") auto
    with False show ?thesis
      by (subst fieldNamesLoop.simps) auto
  qed
qed

lemma getFieldNamesFromBitmap_selectedNames:
  "getFieldNamesFromBitmap flds hex = selectedNames (rev (hexToBin hex)) flds"
  by (simp add: getFieldNamesFromBitmap_def fieldNamesLoop_selectedNames)

lemma selectedNames_append:
  "selectedNames (xs @ ys) fs =
     selectedNames xs (take (length xs) fs) @ selectedNames ys (drop (length xs) fs)"
proof (induction xs arbitrary: fs)
  case Nil
  show ?case by simp
next
  case (Cons x xs)
  then show ?case by (cases fs) auto
qed

lemma filter_upt_bound:
  "filter (\<lambda>i. i < n \<and> P i) [0 ..< m] = filter P [0 ..< min n m]"
proof (induction m)
  case 0
  show ?case by simp
next
  case (Suc m)
  show ?case
  proof (cases "m < n")
    case True
    then have "min n (Suc m) = Suc (min n m)" by simp
    with Suc True show ?thesis by simp
  next
    case False
    then have "min n (Suc m) = min n m" by simp
    with Suc False show ?thesis by simp
  qed
qed

lemma split_no_sep: "sep \<notin> set s \<Longrightarrow> split sep s = [s]"
  by (induction s) auto

lemma compoundFields_skip:
  "sep_free = (CHR ''-'' \<notin> set b) \<Longrightarrow> sep_free \<Longrightarrow>
   compoundFields allFields (b # rest) names = compoundFields allFields rest names"
  by (simp add: split_no_sep)

lemma getFieldNamesFromBitmap_0x03:
  "getFieldNamesFromBitmap [child0, child1] ''0x03'' = [getName child0, getName child1]"
  by (simp add: getFieldNamesFromBitmap_selectedNames hexToBin_map hexDigitToBin_def)

lemma getFieldNamesFromBitmap_no_prefix:
  "getFieldNamesFromBitmap flds ''03'' = []"
  by (simp add: getFieldNamesFromBitmap_selectedNames hexToBin_def)

lemma parseInt_1: "parseInt ''1'' = Some 1"
  by (simp add: parseInt_def isWhiteSpace_def isDigit_def digitValue_def)

lemma compoundFields_1_0x03:
  assumes "1 < length allFields"
    and "getChildFields (Some (allFields ! 1)) = Inr [child0, child1]"
  shows "compoundFields allFields [''1-0x03''] names =
     Inr (names @ [getName (allFields ! 1) @ ''.'' @ getName child0,
                   getName (allFields ! 1) @ ''.'' @ getName child1])"
proof -
  have sp: "split (CHR ''-'') ''1-0x03'' = [''1'', ''0x03'']" by simp
  have fa: "fieldAt allFields (Some 1) = Some (allFields ! 1)"
    using assms(1) by (simp add: fieldAt_def)
  show ?thesis
    unfolding compoundFields.simps sp Let_def
    using assms(2) by (simp add: parseInt_1 fa getFieldNamesFromBitmap_0x03)
qed

lemma compoundFields_1_03:
  assumes "1 < length allFields"
    and "getChildFields (Some (allFields ! 1)) = Inr children"
  shows "compoundFields allFields [''1-03''] names = Inr names"
proof -
  have sp: "split (CHR ''-'') ''1-03'' = [''1'', ''03'']" by simp
  have fa: "fieldAt allFields (Some 1) = Some (allFields ! 1)"
    using assms(1) by (simp add: fieldAt_def)
  show ?thesis
    unfolding compoundFields.simps sp Let_def
    using assms(2) by (simp add: parseInt_1 fa getFieldNamesFromBitmap_no_prefix)
qed

text \<open>
  C4 (as stated): for a field list whose field of index 1 has two record-typed child
  fields, the compound entry \<open>1-03\<close> resolves to the two prefixed child names.
  \<^verbatim>\<open>hexToBin\<close> drops the first two characters of every bitmap as the prefix, so the
  child bitmap \<open>03\<close> is empty and the entry selects no name, alone or after a
  top-level bitmap.
\<close>

theorem C4_compound_counterexample:
  "getChildFields (Some (AvroField ''B'' (UnionType
       [OtherType, RecordType [AvroField ''x'' OtherType, AvroField ''y'' OtherType]]))) =
     Inr [AvroField ''x'' OtherType, AvroField ''y'' OtherType] \<and>
   parseFieldBitmaps
     [AvroField ''A'' OtherType,
      AvroField ''B'' (UnionType
        [OtherType, RecordType [AvroField ''x'' OtherType, AvroField ''y'' OtherType]])]
     [''0x00'', ''1-03''] = Inr [] \<and>
   parseFieldBitmaps
     [AvroField ''A'' OtherType,
      AvroField ''B'' (UnionType
        [OtherType, RecordType [AvroField ''x'' OtherType, AvroField ''y'' OtherType]])]
     [''1-03''] = Inr []"
proof -
  let ?B = "AvroField ''B'' (UnionType
      [OtherType, RecordType [AvroField ''x'' OtherType, AvroField ''y'' OtherType]])"
  let ?fs = "[AvroField ''A'' OtherType, ?B]"
  have ch: "getChildFields (Some ?B) =
      Inr [AvroField ''x'' OtherType, AvroField ''y'' OtherType]"
    by (simp add: getChildFields_def)
  have top: "getFieldNamesFromBitmap ?fs ''0x00'' = []"
    by (simp add: getFieldNamesFromBitmap_selectedNames hexToBin_map hexDigitToBin_def)
  have "compoundFields ?fs [''0x00'', ''1-03''] [] = compoundFields ?fs [''1-03''] []"
    by (rule compoundFields_skip [OF refl]) simp
  also have "\<dots> = Inr []"
    by (rule compoundFields_1_03
        [where children = "[AvroField ''x'' OtherType, AvroField ''y'' OtherType]"])
      (simp_all add: ch)
  finally have "parseFieldBitmaps ?fs [''0x00'', ''1-03''] = Inr []"
    by (simp add: parseFieldBitmaps_def startsWith_def includesChar_def top
        del: compoundFields.simps)
  moreover have "parseFieldBitmaps ?fs [''1-03''] = Inr []"
    by (simp add: parseFieldBitmaps_def startsWith_def)
  ultimately show ?thesis using ch by simp
qed

text \<open>
  C4 (amended): for a field list whose field of index 1 has exactly the two
  record-typed child fields \<open>child0\<close> and \<open>child1\<close>, the compound entry written with
  the hex prefix, \<open>1-0x03\<close>, standing after a first entry without a dash, adds the two
  child names, each prefixed with the parent field's name and a dot, to the names of
  the first entry.
\<close>

theorem C4_compound_prefixed:
  assumes "1 < length allFields"
    and "getChildFields (Some (allFields ! 1)) = Inr [child0, child1]"
    and "CHR ''-'' \<notin> set topBitmap"
  shows "parseFieldBitmaps allFields [topBitmap, ''1-0x03''] =
     Inr ((if startsWith topBitmap ''0x'' then getFieldNamesFromBitmap allFields topBitmap
           else []) @
          [getName (allFields ! 1) @ ''.'' @ getName child0,
           getName (allFields ! 1) @ ''.'' @ getName child1])"
proof -
  define names where "names =
    (if startsWith topBitmap ''0x'' then getFieldNamesFromBitmap allFields topBitmap else [])"
  have "compoundFields allFields [topBitmap, ''1-0x03''] names =
      compoundFields allFields [''1-0x03''] names"
    using assms(3) by (rule compoundFields_skip [OF refl])
  also have "\<dots> = Inr (names @ [getName (allFields ! 1) @ ''.'' @ getName child0,
      getName (allFields ! 1) @ ''.'' @ getName child1])"
    using assms(1,2) by (rule compoundFields_1_0x03)
  finally show ?thesis
    by (cases "startsWith topBitmap ''0x''")
      (simp_all add: parseFieldBitmaps_def includesChar_def names_def
        del: compoundFields.simps)
qed

theorem C4_compound_prefixed_witness:
  "parseFieldBitmaps
     [AvroField ''A'' OtherType,
      AvroField ''B'' (UnionType
        [OtherType, RecordType [AvroField ''x'' OtherType, AvroField ''y'' OtherType]])]
     [''0x01'', ''1-0x03''] = Inr [''A'', ''B.x'', ''B.y'']"
proof -
  let ?B = "AvroField ''B'' (UnionType
      [OtherType, RecordType [AvroField ''x'' OtherType, AvroField ''y'' OtherType]])"
  let ?fs = "[AvroField ''A'' OtherType, ?B]"
  have ch: "getChildFields (Some (?fs ! 1)) =
      Inr [AvroField ''x'' OtherType, AvroField ''y'' OtherType]"
    by (simp add: getChildFields_def)
  have top: "getFieldNamesFromBitmap ?fs ''0x01'' = [''A'']"
    by (simp add: getFieldNamesFromBitmap_selectedNames hexToBin_map hexDigitToBin_def)
  have "parseFieldBitmaps ?fs [''0x01'', ''1-0x03''] =
     Inr ((if startsWith ''0x01'' ''0x'' then getFieldNamesFromBitmap ?fs ''0x01'' else []) @
          [getName (?fs ! 1) @ ''.'' @ getName (AvroField ''x'' OtherType),
           getName (?fs ! 1) @ ''.'' @ getName (AvroField ''y'' OtherType)])"
    by (rule C4_compound_prefixed [OF _ ch]) simp_all
  then show ?thesis by (simp add: top startsWith_def)
qed

text \<open>
  C5 (as stated): for every bitmap string that begins with \<open>0x\<close>, each hexadecimal
  digit is converted to its four binary digits before the reversed scan.  The
  lower-case digit of \<open>0x0a\<close> is not converted: the code selects no field where the
  procedure of the specification selects \<open>B\<close> and \<open>D\<close>.
\<close>

theorem C5_lowercase_counterexample:
  "getFieldNamesFromBitmap
     [AvroField ''A'' OtherType, AvroField ''B'' OtherType,
      AvroField ''C'' OtherType, AvroField ''D'' OtherType] ''0x0a'' = [] \<and>
   bitmapFieldNames_spec
     [AvroField ''A'' OtherType, AvroField ''B'' OtherType,
      AvroField ''C'' OtherType, AvroField ''D'' OtherType] ''0a'' = [''B'', ''D'']"
proof -
  have "getFieldNamesFromBitmap
     [AvroField ''A'' OtherType, AvroField ''B'' OtherType,
      AvroField ''C'' OtherType, AvroField ''D'' OtherType] ''0x0a'' = []"
    by (simp add: getFieldNamesFromBitmap_selectedNames hexToBin_map hexDigitToBin_def)
  moreover have "bitmapFieldNames_spec
     [AvroField ''A'' OtherType, AvroField ''B'' OtherType,
      AvroField ''C'' OtherType, AvroField ''D'' OtherType] ''0a'' = [''B'', ''D'']"
    by (simp add: bitmapFieldNames_spec_def bitmapBits_spec_def hexDigitValue_def
        fourBits_def upt_conv_Cons)
  ultimately show ?thesis by simp
qed

text \<open>
  C5 (amended): for every ordered field list and every bitmap string that begins
  with \<open>0x\<close> and continues with digits \<open>0\<close>-\<open>9\<close> and upper-case \<open>A\<close>-\<open>F\<close> only,
  top-level resolution converts each digit to its four binary digits, concatenates,
  reverses, and emits \<open>fields[i].name\<close> for each position \<open>i\<close> set to \<open>1\<close>, ignoring
  positions beyond the field list; for the fields \<open>[A, B, C, D]\<close> and the bitmap
  \<open>0x05\<close> the result is exactly \<open>[A, C]\<close>.
\<close>

theorem C5_uppercase_resolution:
  "(set digits \<subseteq> set ''0123456789ABCDEF'' \<longrightarrow>
      getFieldNamesFromBitmap flds (''0x'' @ digits) = bitmapFieldNames_spec flds digits) \<and>
   getFieldNamesFromBitmap
     [AvroField ''A'' ta, AvroField ''B'' tb, AvroField ''C'' tc, AvroField ''D'' td] ''0x05'' =
     [''A'', ''C'']"
proof (intro conjI impI)
  assume up: "set digits \<subseteq> set ''0123456789ABCDEF''"
  have "map hexDigitToBin digits =
      map (\<lambda>c. case hexDigitValue c of Some v \<Rightarrow> fourBits v | None \<Rightarrow> []) digits"
    using up by (intro map_cong refl hexDigitToBin_upper) blast
  then have "concat (map hexDigitToBin digits) =
      concat (map (\<lambda>c. case hexDigitValue c of Some v \<Rightarrow> fourBits v | None \<Rightarrow> []) digits)"
    by (rule arg_cong)
  moreover have "hexToBin (''0x'' @ digits) = concat (map hexDigitToBin digits)"
    by (simp add: hexToBin_map)
  ultimately have bits: "rev (hexToBin (''0x'' @ digits)) = bitmapBits_spec digits"
    by (simp only: bitmapBits_spec_def)
  show "getFieldNamesFromBitmap flds (''0x'' @ digits) = bitmapFieldNames_spec flds digits"
    unfolding getFieldNamesFromBitmap_def Let_def bits bitmapFieldNames_spec_def
    by (simp add: fieldNamesLoop_filter filter_upt_bound)
next
  show "getFieldNamesFromBitmap
     [AvroField ''A'' ta, AvroField ''B'' tb, AvroField ''C'' tc, AvroField ''D'' td] ''0x05'' =
     [''A'', ''C'']"
    by (simp add: getFieldNamesFromBitmap_selectedNames hexToBin_map hexDigitToBin_def)
qed

theorem C5_uppercase_resolution_witness:
  "getFieldNamesFromBitmap
     [AvroField ''A'' OtherType, AvroField ''B'' OtherType, AvroField ''C'' OtherType]
     (''0x'' @ ''0A'') =
   bitmapFieldNames_spec
     [AvroField ''A'' OtherType, AvroField ''B'' OtherType, AvroField ''C'' OtherType] ''0A'' \<and>
   bitmapFieldNames_spec
     [AvroField ''A'' OtherType, AvroField ''B'' OtherType, AvroField ''C'' OtherType] ''0A'' =
     [''B'']"
proof -
  have "bitmapFieldNames_spec
     [AvroField ''A'' OtherType, AvroField ''B'' OtherType, AvroField ''C'' OtherType] ''0A'' =
     [''B'']"
    by (simp add: bitmapFieldNames_spec_def bitmapBits_spec_def hexDigitValue_def
        fourBits_def upt_conv_Cons)
  moreover have "getFieldNamesFromBitmap
     [AvroField ''A'' OtherType, AvroField ''B'' OtherType, AvroField ''C'' OtherType]
     (''0x'' @ ''0A'') =
   bitmapFieldNames_spec
     [AvroField ''A'' OtherType, AvroField ''B'' OtherType, AvroField ''C'' OtherType] ''0A''"
    by (rule C5_uppercase_resolution [THEN conjunct1, THEN mp]) simp
  ultimately show ?thesis by simp
qed

text \<open>
  C10: bitmap resolution handles upper-case hexadecimal digits only.  A lower-case
  digit \<open>a\<close>-\<open>f\<close> anywhere in the bitmap stays one unexpanded character in the binary
  string, and the one scan position it governs (after the reversal, the position
  right above the binary digits of what follows it) never contributes a field name:
  the result is made of the names that the digits after it select among the fields
  below that position and the names that the digits before it select among the
  fields above it.
\<close>

theorem C10_lowercase_digit_selects_nothing:
  assumes "c \<in> set ''abcdef''"
  shows "hexToBin (''0x'' @ h1 @ [c] @ h2) =
           hexToBin (''0x'' @ h1) @ [c] @ hexToBin (''0x'' @ h2) \<and>
         getFieldNamesFromBitmap flds (''0x'' @ h1 @ [c] @ h2) =
           getFieldNamesFromBitmap (take (length (hexToBin (''0x'' @ h2))) flds)
             (''0x'' @ h2) @
           getFieldNamesFromBitmap (drop (Suc (length (hexToBin (''0x'' @ h2)))) flds)
             (''0x'' @ h1)"
proof -
  have c1: "c \<noteq> CHR ''1''" using assms by auto
  have bin: "hexToBin (''0x'' @ h1 @ [c] @ h2) =
      hexToBin (''0x'' @ h1) @ [c] @ hexToBin (''0x'' @ h2)"
    using hexDigitToBin_lower [OF assms] by (simp add: hexToBin_map)
  define n where "n = length (hexToBin (''0x'' @ h2))"
  have "selectedNames (c # rev (hexToBin (''0x'' @ h1))) (drop n flds) =
      selectedNames (rev (hexToBin (''0x'' @ h1))) (drop (Suc n) flds)"
  proof (cases "drop n flds")
    case Nil
    then have "drop (Suc n) flds = []" by simp
    with Nil show ?thesis by simp
  next
    case (Cons f fs)
    then have "drop (Suc n) flds = fs"
      by (metis drop_Suc tl_drop list.sel(3))
    with Cons c1 show ?thesis by simp
  qed
  then have "getFieldNamesFromBitmap flds (''0x'' @ h1 @ [c] @ h2) =
      getFieldNamesFromBitmap (take n flds) (''0x'' @ h2) @
      getFieldNamesFromBitmap (drop (Suc n) flds) (''0x'' @ h1)"
    unfolding getFieldNamesFromBitmap_selectedNames bin
    by (simp add: selectedNames_append n_def)
  with bin show ?thesis by (simp add: n_def)
qed

theorem C10_lowercase_digit_selects_nothing_witness:
  "hexToBin (''0x'' @ ''1'' @ [CHR ''a''] @ ''3'') = ''0001a0011'' \<and>
   getFieldNamesFromBitmap
     [AvroField ''F0'' OtherType, AvroField ''F1'' OtherType, AvroField ''F2'' OtherType,
      AvroField ''F3'' OtherType, AvroField ''F4'' OtherType, AvroField ''F5'' OtherType]
     (''0x'' @ ''1'' @ [CHR ''a''] @ ''3'') = [''F0'', ''F1'', ''F5'']"
proof -
  let ?fs = "[AvroField ''F0'' OtherType, AvroField ''F1'' OtherType, AvroField ''F2'' OtherType,
      AvroField ''F3'' OtherType, AvroField ''F4'' OtherType, AvroField ''F5'' OtherType]"
  have m: "CHR ''a'' \<in> set ''abcdef''" by simp
  have h1: "hexToBin (''0x'' @ ''1'') = ''0001''" and h2: "hexToBin (''0x'' @ ''3'') = ''0011''"
    by (simp_all add: hexToBin_map hexDigitToBin_def)
  have lo: "getFieldNamesFromBitmap (take 4 ?fs) (''0x'' @ ''3'') = [''F0'', ''F1'']"
    by (simp add: getFieldNamesFromBitmap_selectedNames hexToBin_map hexDigitToBin_def)
  have hi: "getFieldNamesFromBitmap (drop (Suc 4) ?fs) (''0x'' @ ''1'') = [''F5'']"
    by (simp add: getFieldNamesFromBitmap_selectedNames hexToBin_map hexDigitToBin_def)
  from C10_lowercase_digit_selects_nothing [OF m, of "''1''" "''3''" ?fs]
  show ?thesis
    unfolding h1 h2 using lo hi by simp
qed

section \<open>Properties of the flattening\<close>

lemma soleValue_object: "soleValue v = Some s \<Longrightarrow> truthy v \<and> typeof v = ''object''"
  by (induction v rule: soleValue.induct) auto

lemma soleValue_not_object: "\<not> (truthy v \<and> typeof v = ''object'') \<Longrightarrow> soleValue v = None"
  using soleValue_object by (cases "soleValue v") auto

lemma flatten_entry:
  "(if key \<noteq> ''ChangeEventHeader'' \<and> truthy v \<and> typeof v = ''object'' then
      (case soleValue v of
         Some subValue \<Rightarrow>
           if truthy subValue \<and> typeof subValue = ''object''
           then flattenSinglePropertyObjects subValue else subValue
       | None \<Rightarrow> v)
    else v) =
   (if key = ''ChangeEventHeader'' then v
    else (case soleValue v of
            None \<Rightarrow> v
          | Some subValue \<Rightarrow>
              if truthy subValue \<and> typeof subValue = ''object''
              then flattenSinglePropertyObjects subValue else subValue))"
  by (simp add: soleValue_not_object)

text \<open>
  C3 (as stated): every single-key wrapper outside the change-tracking header is
  replaced by its sole inner value, recursing into the replacement when it is itself
  such a wrapper, so that doubly nested wrappers are fully flattened.  After the
  replacement the code flattens the attributes of the replacement, not the
  replacement itself: of \<open>{ Name: { a: { b: "x" } } }\<close> it makes
  \<open>{ Name: { b: "x" } }\<close>, still a single-key wrapper, and not \<open>{ Name: "x" }\<close>.  An
  attribute with two keys is not entered: the wrapper inside
  \<open>{ A: { u: { string: "v" }, w: 1 } }\<close> stays.
\<close>

theorem C3_nested_wrapper_counterexample:
  "flattenSinglePropertyObjects
     (JObj [(''Name'', JObj [(''a'', JObj [(''b'', JStr ''x'')])])]) =
   JObj [(''Name'', JObj [(''b'', JStr ''x'')])] \<and>
   isSingleKeyWrapper (JObj [(''b'', JStr ''x'')]) \<and>
   flattenSinglePropertyObjects
     (JObj [(''Name'', JObj [(''a'', JObj [(''b'', JStr ''x'')])])]) \<noteq>
   JObj [(''Name'', JStr ''x'')] \<and>
   flattenSinglePropertyObjects
     (JObj [(''A'', JObj [(''u'', JObj [(''string'', JStr ''v'')]), (''w'', JNum (Finite 1))])]) =
   JObj [(''A'', JObj [(''u'', JObj [(''string'', JStr ''v'')]), (''w'', JNum (Finite 1))])]"
  by simp

text \<open>
  C3 (amended): flattening a decoded payload keeps its attributes and their order.
  The attribute \<open>ChangeEventHeader\<close> keeps its value, even a single-key object.  Any
  other attribute whose value has exactly one key (a single-key wrapper object, or an
  array of one element) is replaced by the sole inner value, and when that inner
  value is an object the same flattening is applied to the attributes of the inner
  value (the inner value itself is not examined again); an attribute whose value is
  not of this form keeps its value.  \<open>{ Name: { string: "Acme" } }\<close> becomes
  \<open>{ Name: "Acme" }\<close>.
\<close>

theorem C3_flatten_attribute:
  assumes "i < length kvs" and "kvs ! i = (key, v)"
  shows "(\<exists>kvs'. flattenSinglePropertyObjects (JObj kvs) = JObj kvs' \<and>
            map fst kvs' = map fst kvs \<and>
            snd (kvs' ! i) =
              (if key = ''ChangeEventHeader'' then v
               else (case soleValue v of
                       None \<Rightarrow> v
                     | Some subValue \<Rightarrow>
                         if truthy subValue \<and> typeof subValue = ''object''
                         then flattenSinglePropertyObjects subValue else subValue))) \<and>
         flattenSinglePropertyObjects (JObj [(''Name'', JObj [(''string'', JStr ''Acme'')])]) =
           JObj [(''Name'', JStr ''Acme'')]"
proof -
  let ?f = "\<lambda>(key, val).
        (key,
         if key \<noteq> ''ChangeEventHeader'' \<and> truthy val \<and> typeof val = ''object'' then
           (case soleValue val of
              Some subValue \<Rightarrow>
                if truthy subValue \<and> typeof subValue = ''object''
                then flattenSinglePropertyObjects subValue else subValue
            | None \<Rightarrow> val)
         else val)"
  have 1: "flattenSinglePropertyObjects (JObj kvs) = JObj (map ?f kvs)" by simp
  have 2: "map fst (map ?f kvs) = map fst kvs" by (induction kvs) auto
  have "map ?f kvs ! i = ?f (kvs ! i)" using assms(1) by simp
  then have 3: "snd (map ?f kvs ! i) =
      (if key = ''ChangeEventHeader'' then v
       else (case soleValue v of
               None \<Rightarrow> v
             | Some subValue \<Rightarrow>
                 if truthy subValue \<and> typeof subValue = ''object''
                 then flattenSinglePropertyObjects subValue else subValue))"
    unfolding assms(2) by (simp add: flatten_entry del: flattenSinglePropertyObjects.simps)
  have 4: "flattenSinglePropertyObjects (JObj [(''Name'', JObj [(''string'', JStr ''Acme'')])]) =
      JObj [(''Name'', JStr ''Acme'')]"
    by simp
  from 1 2 3 4 show ?thesis by blast
qed

theorem C3_flatten_attribute_witness:
  "\<exists>kvs'. flattenSinglePropertyObjects
       (JObj [(''ChangeEventHeader'', JObj [(''entityName'', JStr ''Account'')]),
              (''Address'', JObj [(''Street'', JObj [(''string'', JStr ''Main'')])])]) =
     JObj kvs' \<and>
     snd (kvs' ! 0) = JObj [(''entityName'', JStr ''Account'')] \<and>
     snd (kvs' ! 1) = JObj [(''string'', JStr ''Main'')]"
proof -
  let ?kvs = "[(''ChangeEventHeader'', JObj [(''entityName'', JStr ''Account'')]),
              (''Address'', JObj [(''Street'', JObj [(''string'', JStr ''Main'')])])]"
  from C3_flatten_attribute [of 0 ?kvs "''ChangeEventHeader''"
      "JObj [(''entityName'', JStr ''Account'')]"]
  obtain k0 where a: "flattenSinglePropertyObjects (JObj ?kvs) = JObj k0"
    and b: "snd (k0 ! 0) = JObj [(''entityName'', JStr ''Account'')]"
    by auto
  from C3_flatten_attribute [of 1 ?kvs "''Address''"
      "JObj [(''Street'', JObj [(''string'', JStr ''Main'')])]"]
  obtain k1 where c: "flattenSinglePropertyObjects (JObj ?kvs) = JObj k1"
    and d: "snd (k1 ! 1) = JObj [(''string'', JStr ''Main'')]"
    by auto
  from a c have "k0 = k1" by simp
  with a b d show ?thesis by blast
qed

section \<open>Properties of the subscription engine\<close>

subsection \<open>Validation of the requested count\<close>

lemma checkNumRequested_unbounded:
  "requested = JNull \<or> requested = JUndefined \<Longrightarrow>
   checkNumRequested requested = Inr (True, MAX_EVENT_BATCH_SIZE, False)"
  by (simp add: checkNumRequested_def)

lemma checkNumRequested_safe:
  "1 \<le> n \<Longrightarrow> n \<le> 9007199254740991 \<Longrightarrow>
   checkNumRequested (JNum (Finite (of_int n))) = Inr (False, n, n > MAX_EVENT_BATCH_SIZE)"
  by (simp add: checkNumRequested_def)

lemma checkNumRequested_Inr:
  "checkNumRequested requested = Inr res \<Longrightarrow>
   requested = JNull \<or> requested = JUndefined \<or>
   (\<exists>n. 1 \<le> n \<and> n \<le> 9007199254740991 \<and> requested = JNum (Finite (of_int n)))"
proof (cases requested)
  case (JNum x)
  assume ok: "checkNumRequested requested = Inr res"
  show ?thesis
  proof (cases x)
    case (Finite q)
    with JNum ok have q: "of_int \<lfloor>q\<rfloor> = q" "\<bar>q\<bar> \<le> 9007199254740991" "\<not> q < 1"
      by (auto simp add: checkNumRequested_def split: if_splits)
    from q(1,3) have "1 \<le> \<lfloor>q\<rfloor>" by linarith
    moreover from q(1,2) have "\<lfloor>q\<rfloor> \<le> 9007199254740991"
      by (metis abs_le_D1 floor_mono floor_numeral)
    ultimately show ?thesis using JNum Finite q(1) by metis
  qed (use JNum ok in \<open>simp_all add: checkNumRequested_def\<close>)
qed (simp_all add: checkNumRequested_def)

lemma subscribe_accepted:
  assumes "checkNumRequested (numRequested r) = Inr (isInfinite, n, warn)"
    and "connected c"
  shows "fst (subscribe c r) = Inr (newPubSubEventEmitter (reqTopicName r) n, isInfinite)"
    and "warnings (snd (subscribe c r)) =
           (if warn
            then warnings c @ [''The number of requested events for '' @ reqTopicName r @
                               '' exceeds max event batch size (100).'']
            else warnings c)"
    and "subscriptions (snd (subscribe c r)) (reqTopicName r) =
           Some ((case subscriptions c (reqTopicName r) of Some stream \<Rightarrow> stream | None \<Rightarrow> []) @
                 [\<lparr>fetchTopicName = reqTopicName r, fetchNumRequested = n,
                   fetchReplayPreset = replayPreset r, fetchReplayId = reqReplayId r\<rparr>])"
  using assms by (simp_all add: subscribe_def subscribeBody_def Let_def)

lemma subscribe_rejected:
  "checkNumRequested (numRequested r) = Inl e \<Longrightarrow> isl (fst (subscribe c r))"
  by (simp add: subscribe_def subscribeBody_def)

text \<open>
  C9 (as stated): every integer from 1 up is accepted.  \<^verbatim>\<open>Number.isSafeInteger\<close>
  refuses \<open>2^53\<close>, an integer that a \<^verbatim>\<open>number\<close> holds exactly: the call fails on a
  connected client.
\<close>

theorem C9_unsafe_integer_counterexample:
  "subscribe
     \<lparr>connected = True, subscriptions = Map.empty, schemaCache = Map.empty, warnings = []\<rparr>
     \<lparr>reqTopicName = ''T'', numRequested = JNum (Finite 9007199254740992),
      replayPreset = None, reqReplayId = None\<rparr> =
   (Inl (ErrorCause ''Failed to subscribe to events for topic''
          (Error ''Expected an integer greater than 1 for number of requested events'')),
    \<lparr>connected = True, subscriptions = Map.empty, schemaCache = Map.empty, warnings = []\<rparr>)"
  by (simp add: subscribe_def subscribeBody_def checkNumRequested_def)

text \<open>
  C9 (amended): \<^verbatim>\<open>subscribe\<close> validates \<open>requestedCount\<close> as follows.  Absent or
  \<^verbatim>\<open>null\<close> selects the unbounded mode, tracked as batches of the maximum batch size
  (100).  Every safe integer, from 1 up to \<open>2^53 - 1\<close>, is accepted, a value above 100
  with a warning only.  Every other value (not a number, not an integer, below 1, or
  an integer above \<open>2^53 - 1\<close>) makes the call fail.  (An accepted call goes on to the
  connection check, so acceptance is stated for a connected client.)
\<close>

theorem C9_subscribe_validation:
  "((numRequested r = JNull \<or> numRequested r = JUndefined) \<and> connected c \<longrightarrow>
      fst (subscribe c r) =
        Inr (newPubSubEventEmitter (reqTopicName r) MAX_EVENT_BATCH_SIZE, True) \<and>
      warnings (snd (subscribe c r)) = warnings c \<and>
      MAX_EVENT_BATCH_SIZE = 100) \<and>
   (1 \<le> n \<and> n \<le> 9007199254740991 \<and> numRequested r = JNum (Finite (of_int n)) \<and>
    connected c \<longrightarrow>
      fst (subscribe c r) = Inr (newPubSubEventEmitter (reqTopicName r) n, False) \<and>
      (warnings (snd (subscribe c r)) \<noteq> warnings c) = (100 < n)) \<and>
   (numRequested r \<noteq> JNull \<and> numRequested r \<noteq> JUndefined \<and>
    (\<forall>m. 1 \<le> m \<and> m \<le> 9007199254740991 \<longrightarrow> numRequested r \<noteq> JNum (Finite (of_int m))) \<longrightarrow>
      isl (fst (subscribe c r)))"
proof (intro conjI impI)
  assume a: "(numRequested r = JNull \<or> numRequested r = JUndefined) \<and> connected c"
  then have ck: "checkNumRequested (numRequested r) = Inr (True, MAX_EVENT_BATCH_SIZE, False)"
    by (simp add: checkNumRequested_unbounded)
  from a show "fst (subscribe c r) =
      Inr (newPubSubEventEmitter (reqTopicName r) MAX_EVENT_BATCH_SIZE, True)"
    by (simp add: subscribe_accepted(1) [OF ck])
  from a show "warnings (snd (subscribe c r)) = warnings c"
    by (simp add: subscribe_accepted(2) [OF ck])
  show "MAX_EVENT_BATCH_SIZE = 100" by (simp add: MAX_EVENT_BATCH_SIZE_def)
next
  assume a: "1 \<le> n \<and> n \<le> 9007199254740991 \<and> numRequested r = JNum (Finite (of_int n)) \<and>
    connected c"
  then have ck: "checkNumRequested (numRequested r) = Inr (False, n, n > MAX_EVENT_BATCH_SIZE)"
    by (simp add: checkNumRequested_safe)
  from a show "fst (subscribe c r) = Inr (newPubSubEventEmitter (reqTopicName r) n, False)"
    by (simp add: subscribe_accepted(1) [OF ck])
  from a show "(warnings (snd (subscribe c r)) \<noteq> warnings c) = (100 < n)"
    by (simp add: subscribe_accepted(2) [OF ck] MAX_EVENT_BATCH_SIZE_def)
next
  assume a: "numRequested r \<noteq> JNull \<and> numRequested r \<noteq> JUndefined \<and>
    (\<forall>m. 1 \<le> m \<and> m \<le> 9007199254740991 \<longrightarrow> numRequested r \<noteq> JNum (Finite (of_int m)))"
  show "isl (fst (subscribe c r))"
  proof (cases "checkNumRequested (numRequested r)")
    case (Inl e)
    then show ?thesis by (rule subscribe_rejected)
  next
    case (Inr res)
    from checkNumRequested_Inr [OF this] a show ?thesis by blast
  qed
qed

theorem C9_subscribe_validation_witness:
  "fst (subscribe
     \<lparr>connected = True, subscriptions = Map.empty, schemaCache = Map.empty, warnings = []\<rparr>
     \<lparr>reqTopicName = ''T'', numRequested = JNull, replayPreset = None, reqReplayId = None\<rparr>) =
     Inr (newPubSubEventEmitter ''T'' 100, True) \<and>
   fst (subscribe
     \<lparr>connected = True, subscriptions = Map.empty, schemaCache = Map.empty, warnings = []\<rparr>
     \<lparr>reqTopicName = ''T'', numRequested = JNum (Finite (of_int 250)), replayPreset = None,
      reqReplayId = None\<rparr>) =
     Inr (newPubSubEventEmitter ''T'' 250, False) \<and>
   warnings (snd (subscribe
     \<lparr>connected = True, subscriptions = Map.empty, schemaCache = Map.empty, warnings = []\<rparr>
     \<lparr>reqTopicName = ''T'', numRequested = JNum (Finite (of_int 250)), replayPreset = None,
      reqReplayId = None\<rparr>)) \<noteq> [] \<and>
   isl (fst (subscribe
     \<lparr>connected = True, subscriptions = Map.empty, schemaCache = Map.empty, warnings = []\<rparr>
     \<lparr>reqTopicName = ''T'', numRequested = JStr ''3'', replayPreset = None,
      reqReplayId = None\<rparr>))"
proof -
  let ?c = "\<lparr>connected = True, subscriptions = Map.empty, schemaCache = Map.empty,
    warnings = []\<rparr>"
  let ?r0 = "\<lparr>reqTopicName = ''T'', numRequested = JNull, replayPreset = None,
    reqReplayId = None\<rparr>"
  let ?r1 = "\<lparr>reqTopicName = ''T'', numRequested = JNum (Finite (of_int 250)),
    replayPreset = None, reqReplayId = None\<rparr>"
  let ?r2 = "\<lparr>reqTopicName = ''T'', numRequested = JStr ''3'', replayPreset = None,
    reqReplayId = None\<rparr>"
  have "fst (subscribe ?c ?r0) = Inr (newPubSubEventEmitter ''T'' 100, True)"
    using C9_subscribe_validation [of ?r0 ?c 1] by simp
  moreover have "fst (subscribe ?c ?r1) = Inr (newPubSubEventEmitter ''T'' 250, False) \<and>
      warnings (snd (subscribe ?c ?r1)) \<noteq> []"
    using C9_subscribe_validation [of ?r1 ?c 250] by simp
  moreover have "isl (fst (subscribe ?c ?r2))"
    using C9_subscribe_validation [of ?r2 ?c 1] by simp
  ultimately show ?thesis by simp
qed

subsection \<open>Messages without events\<close>

text \<open>
  What the handler does with a message whose \<open>events\<close> property is absent: one
  \<open>keepalive\<close> signal that carries the message with the decoded latest position.
\<close>

lemma onData_absent_events:
  assumes "events data = None" and "latestReplayId data = Encoded buf"
    and "decodeReplayId buf = Inr latest"
  shows "onData getSchema isInfinite (c, em) data =
     Inr (c, em\<lparr>emitted := emitted em @
                    [KeepaliveSignal (data\<lparr>latestReplayId := Decoded latest\<rparr>)]\<rparr>)"
  using assms by (simp add: onData_def emit_def)

text \<open>
  C6 (the code at the failing input): a message that carries zero events as an empty
  array.  The handler tests \<^verbatim>\<open>if (data.events)\<close>, and an empty array is truthy: the
  loop runs over no event and the \<open>keepalive\<close> branch is not taken.  The state of the
  emitter is unchanged, so no \<open>keepalive\<close> signal (and no other signal) is emitted.
\<close>

theorem C6_empty_events_no_keepalive:
  "onData getSchema isInfinite (c, em)
     \<lparr>events = Some [], latestReplayId = Encoded [0, 0, 0, 0, 0, 0, 0, 5], rpcId = rid,
      pendingNumRequested = pending\<rparr> = Inr (c, em)"
proof -
  have "decodeReplayId [0, 0, 0, 0, 0, 0, 0, 5] = Inr 5" by code_simp
  then show ?thesis by (simp add: onData_def)
qed

subsection \<open>The loop over the events of a batch\<close>

lemma tryParseEvent_client:
  "tryParseEvent getSchema c ev = (res, c') \<Longrightarrow>
   subscriptions c' = subscriptions c \<and> connected c' = connected c"
  by (auto simp add: tryParseEvent_def getEventSchemaFromId_def
      split: option.splits sum.splits prod.splits)

lemma eventSignal_isEventSignal [simp]: "isEventSignal (eventSignal res ev latest)"
  by (simp add: eventSignal_def split: sum.splits)

lemma eventSignal_not_LastEvent [simp]: "eventSignal res ev latest \<noteq> LastEventSignal"
  by (simp add: eventSignal_def split: sum.splits)

lemma emit_eventSignal_received [simp]:
  "receivedEventCount (emit em (eventSignal res ev latest)) = receivedEventCount em + 1"
  by (simp add: emit_def eventSignal_def split: sum.splits)

lemma processEvent_cases:
  assumes "tryParseEvent getSchema c ev = (res, c1)"
  shows "processEvent getSchema isInfinite latest (c, em) ev =
     (if receivedEventCount em + 1 = requestedEventCount em then
        (if isInfinite then
           (case requestAdditionalEvents c1 (emit em (eventSignal res ev latest))
                   MAX_EVENT_BATCH_SIZE of
              Inr st' \<Rightarrow> st'
            | Inl e \<Rightarrow> (c1, emit em (eventSignal res ev latest)))
         else (c1, emit (emit em (eventSignal res ev latest)) LastEventSignal))
      else (c1, emit em (eventSignal res ev latest)))"
proof -
  have em: "(case res of
               Inr parsedEvent \<Rightarrow> emit em (DataSignal parsedEvent)
             | Inl err \<Rightarrow> emit em (ErrorSignal (parseErrorOf err ev latest))) =
            emit em (eventSignal res ev latest)"
    by (simp add: eventSignal_def split: sum.splits)
  have rq: "requestedEventCount (emit em (eventSignal res ev latest)) = requestedEventCount em"
    by (simp add: emit_def)
  show ?thesis
    unfolding processEvent_def prod.case assms em Let_def
    by (simp add: rq)
qed

lemma emit_simps [simp]:
  "emitted (emit em s) = emitted em @ [s]"
  "topicName (emit em s) = topicName em"
  "requestedEventCount (emit em s) = requestedEventCount em"
  by (simp_all add: emit_def)

lemma emit_LastEvent_received [simp]:
  "receivedEventCount (emit em LastEventSignal) = receivedEventCount em"
  by (simp add: emit_def)

lemma processEvent_bounded:
  assumes "processEvent getSchema False latest (c, em) ev = (c', em')"
  shows "subscriptions c' = subscriptions c"
    and "requestedEventCount em' = requestedEventCount em"
    and "receivedEventCount em' = receivedEventCount em + 1"
    and "\<exists>s. isEventSignal s \<and>
           emitted em' = emitted em @ s #
             (if receivedEventCount em + 1 = requestedEventCount em
              then [LastEventSignal] else [])"
proof -
  obtain res c1 where t: "tryParseEvent getSchema c ev = (res, c1)"
    by (cases "tryParseEvent getSchema c ev")
  note pc = processEvent_cases [OF t, where latest = latest and isInfinite = False and em = em]
  from tryParseEvent_client [OF t] have sub: "subscriptions c1 = subscriptions c" by simp
  from assms pc sub show "subscriptions c' = subscriptions c"
    by (auto split: if_splits)
  from assms pc show "requestedEventCount em' = requestedEventCount em"
    by (auto split: if_splits)
  from assms pc show "receivedEventCount em' = receivedEventCount em + 1"
    by (auto split: if_splits)
  from assms pc show "\<exists>s. isEventSignal s \<and>
           emitted em' = emitted em @ s #
             (if receivedEventCount em + 1 = requestedEventCount em
              then [LastEventSignal] else [])"
    by (auto split: if_splits)
qed

lemma processEvents_bounded:
  "processEvents getSchema False latest (c, em) evs = (c', em') \<Longrightarrow>
   subscriptions c' = subscriptions c \<and>
   requestedEventCount em' = requestedEventCount em \<and>
   receivedEventCount em' = receivedEventCount em + int (length evs) \<and>
   count_list (emitted em') LastEventSignal =
     count_list (emitted em) LastEventSignal +
     (if receivedEventCount em < requestedEventCount em \<and>
         requestedEventCount em \<le> receivedEventCount em + int (length evs)
      then 1 else 0)"
proof (induction evs arbitrary: c em)
  case Nil
  then show ?case by simp
next
  case (Cons ev evs)
  obtain c1 em1 where st: "processEvent getSchema False latest (c, em) ev = (c1, em1)"
    by (cases "processEvent getSchema False latest (c, em) ev")
  note pe = processEvent_bounded [OF st]
  from pe(4) obtain s where s: "isEventSignal s"
    and e1: "emitted em1 = emitted em @ s #
             (if receivedEventCount em + 1 = requestedEventCount em
              then [LastEventSignal] else [])"
    by blast
  from s have ne: "s \<noteq> LastEventSignal" by auto
  have cnt: "count_list (emitted em1) LastEventSignal =
      count_list (emitted em) LastEventSignal +
      (if receivedEventCount em + 1 = requestedEventCount em then 1 else 0)"
    unfolding e1 using ne by simp
  from Cons.prems st
  have "processEvents getSchema False latest (c1, em1) evs = (c', em')" by simp
  from Cons.IH [OF this] pe(1,2,3) cnt show ?case
    by (auto split: if_splits)
qed

lemma processEvent_unbounded_below:
  assumes "processEvent getSchema True latest (c, em) ev = (c', em')"
    and "receivedEventCount em + 1 \<noteq> requestedEventCount em"
  shows "subscriptions c' = subscriptions c"
    and "topicName em' = topicName em"
    and "requestedEventCount em' = requestedEventCount em"
    and "receivedEventCount em' = receivedEventCount em + 1"
    and "\<exists>s. isEventSignal s \<and> emitted em' = emitted em @ [s]"
proof -
  obtain res c1 where t: "tryParseEvent getSchema c ev = (res, c1)"
    by (cases "tryParseEvent getSchema c ev")
  note pc = processEvent_cases [OF t, where latest = latest and isInfinite = True and em = em]
  from tryParseEvent_client [OF t] have sub: "subscriptions c1 = subscriptions c" by simp
  from assms pc have eq: "c' = c1" "em' = emit em (eventSignal res ev latest)"
    by simp_all
  from eq sub show "subscriptions c' = subscriptions c" by simp
  from eq show "topicName em' = topicName em" by simp
  from eq show "requestedEventCount em' = requestedEventCount em" by simp
  from eq show "receivedEventCount em' = receivedEventCount em + 1" by simp
  from eq show "\<exists>s. isEventSignal s \<and> emitted em' = emitted em @ [s]" by auto
qed

lemma processEvent_unbounded_reached:
  assumes "processEvent getSchema True latest (c, em) ev = (c', em')"
    and "receivedEventCount em + 1 = requestedEventCount em"
    and "subscriptions c (topicName em) = Some stream"
  shows "subscriptions c' =
           (subscriptions c)(topicName em \<mapsto> stream @
              [\<lparr>fetchTopicName = topicName em, fetchNumRequested = MAX_EVENT_BATCH_SIZE,
                fetchReplayPreset = None, fetchReplayId = None\<rparr>])"
    and "requestedEventCount em' = MAX_EVENT_BATCH_SIZE"
    and "receivedEventCount em' = 0"
    and "\<exists>s. isEventSignal s \<and> emitted em' = emitted em @ [s]"
proof -
  obtain res c1 where t: "tryParseEvent getSchema c ev = (res, c1)"
    by (cases "tryParseEvent getSchema c ev")
  note pc = processEvent_cases [OF t, where latest = latest and isInfinite = True and em = em]
  define s where "s = eventSignal res ev latest"
  from tryParseEvent_client [OF t] have sub: "subscriptions c1 = subscriptions c" by simp
  have ra: "requestAdditionalEvents c1 (emit em s) MAX_EVENT_BATCH_SIZE =
      Inr (c1\<lparr>subscriptions := (subscriptions c1)
                   (topicName em \<mapsto> stream @
                      [\<lparr>fetchTopicName = topicName em,
                        fetchNumRequested = MAX_EVENT_BATCH_SIZE,
                        fetchReplayPreset = None, fetchReplayId = None\<rparr>])\<rparr>,
               resetEventCount (emit em s) MAX_EVENT_BATCH_SIZE)"
    using assms(3) sub by (simp add: requestAdditionalEvents_def)
  from assms(1,2) pc ra
  have eq: "c' = c1\<lparr>subscriptions := (subscriptions c1)
                   (topicName em \<mapsto> stream @
                      [\<lparr>fetchTopicName = topicName em,
                        fetchNumRequested = MAX_EVENT_BATCH_SIZE,
                        fetchReplayPreset = None, fetchReplayId = None\<rparr>])\<rparr>"
      "em' = resetEventCount (emit em s) MAX_EVENT_BATCH_SIZE"
    by (simp_all add: s_def)
  from eq sub show "subscriptions c' =
           (subscriptions c)(topicName em \<mapsto> stream @
              [\<lparr>fetchTopicName = topicName em, fetchNumRequested = MAX_EVENT_BATCH_SIZE,
                fetchReplayPreset = None, fetchReplayId = None\<rparr>])"
    by simp
  from eq show "requestedEventCount em' = MAX_EVENT_BATCH_SIZE"
    by (simp add: resetEventCount_def)
  from eq show "receivedEventCount em' = 0" by (simp add: resetEventCount_def)
  from eq show "\<exists>s. isEventSignal s \<and> emitted em' = emitted em @ [s]"
    by (auto simp add: resetEventCount_def s_def)
qed

lemma processEvents_unbounded_below:
  "processEvents getSchema True latest (c, em) evs = (c', em') \<Longrightarrow>
   receivedEventCount em + int (length evs) < requestedEventCount em \<Longrightarrow>
   subscriptions c' = subscriptions c \<and> topicName em' = topicName em \<and>
   requestedEventCount em' = requestedEventCount em \<and>
   receivedEventCount em' = receivedEventCount em + int (length evs) \<and>
   (LastEventSignal \<in> set (emitted em') \<longrightarrow> LastEventSignal \<in> set (emitted em))"
proof (induction evs arbitrary: c em)
  case Nil
  then show ?case by simp
next
  case (Cons ev evs)
  obtain c1 em1 where st: "processEvent getSchema True latest (c, em) ev = (c1, em1)"
    by (cases "processEvent getSchema True latest (c, em) ev")
  from Cons.prems(2) have ne: "receivedEventCount em + 1 \<noteq> requestedEventCount em" by simp
  note pe = processEvent_unbounded_below [OF st ne]
  from pe(5) obtain s where s: "isEventSignal s" "emitted em1 = emitted em @ [s]" by blast
  from s(1) have nl: "s \<noteq> LastEventSignal" by auto
  from Cons.prems(1) st
  have run: "processEvents getSchema True latest (c1, em1) evs = (c', em')" by simp
  from Cons.prems(2) pe(3,4)
  have "receivedEventCount em1 + int (length evs) < requestedEventCount em1" by simp
  from Cons.IH [OF run this] pe s(2) nl show ?case by auto
qed

lemma processEvents_append:
  "processEvents getSchema isInfinite latest st (xs @ ys) =
   processEvents getSchema isInfinite latest
     (processEvents getSchema isInfinite latest st xs) ys"
  by (induction xs arbitrary: st) auto

lemma processEvent_emitted:
  assumes "processEvent getSchema isInfinite latest (c, em) ev = (c', em')"
    and "tryParseEvent getSchema c ev = (res, c1)"
  shows "\<exists>rest. emitted em' = emitted em @ eventSignal res ev latest # rest \<and>
           (rest = [] \<or> rest = [LastEventSignal])"
proof -
  note pc = processEvent_cases [OF assms(2), where latest = latest
      and isInfinite = isInfinite and em = em]
  from assms(1) pc show ?thesis
    by (auto simp add: requestAdditionalEvents_def resetEventCount_def
        split: if_splits option.splits)
qed

lemma processEvents_emitted:
  "processEvents getSchema isInfinite latest (c, em) evs = (c', em') \<Longrightarrow>
   \<exists>more. emitted em' = emitted em @ more \<and>
          length (filter isEventSignal more) = length evs"
proof (induction evs arbitrary: c em)
  case Nil
  then show ?case by simp
next
  case (Cons ev evs)
  obtain c1 em1 where st: "processEvent getSchema isInfinite latest (c, em) ev = (c1, em1)"
    by (cases "processEvent getSchema isInfinite latest (c, em) ev")
  obtain res c2 where t: "tryParseEvent getSchema c ev = (res, c2)"
    by (cases "tryParseEvent getSchema c ev")
  from processEvent_emitted [OF st t] obtain rest where
    r: "emitted em1 = emitted em @ eventSignal res ev latest # rest"
       "rest = [] \<or> rest = [LastEventSignal]"
    by blast
  from r(2) have fr: "filter isEventSignal rest = []" by auto
  from Cons.prems st
  have "processEvents getSchema isInfinite latest (c1, em1) evs = (c', em')" by simp
  from Cons.IH [OF this] obtain more where
    m: "emitted em' = emitted em1 @ more" "length (filter isEventSignal more) = length evs"
    by blast
  let ?new = "(eventSignal res ev latest # rest) @ more"
  have "emitted em' = emitted em @ ?new" using m(1) r(1) by simp
  moreover have "length (filter isEventSignal ?new) = length (ev # evs)"
    using fr m(2) by simp
  ultimately show ?case by blast
qed

text \<open>
  C7: when decoding one event of a batch fails, the handler emits on the \<open>error\<close>
  channel a record that carries the exception as its cause, the replay position of
  the event when that position decodes (nothing otherwise), the raw event and the
  latest replay position of the batch; it then goes on with the remaining events,
  each of which yields its own \<open>data\<close> or \<open>error\<close> signal.  Here \<open>before\<close> are the
  events already handled, \<open>ev\<close> is the failing event and \<open>after\<close> are the remaining
  ones; between the error and the signals of the remaining events stands at most
  the \<open>lastevent\<close> signal.
\<close>

theorem C7_decode_error_continues:
  assumes "latestReplayId data = Encoded buf"
    and "decodeReplayId buf = Inr latest"
    and "events data = Some (before @ ev # after)"
    and "processEvents getSchema isInfinite latest st before = (c1, em1)"
    and "tryParseEvent getSchema c1 ev = (Inl err, c2)"
  shows "\<exists>c' em' rest more.
           onData getSchema isInfinite st data = Inr (c', em') \<and>
           emitted em' =
             emitted em1 @
             ErrorSignal
               \<lparr>message = message (parseErrorOf err ev latest),
                cause = err,
                errorReplayId = (case decodeReplayId (replayId ev) of
                                   Inr r \<Rightarrow> Some r
                                 | Inl e \<Rightarrow> None),
                errorEvent = Some ev,
                errorLatestReplayId = Some latest\<rparr> # rest @ more \<and>
           (rest = [] \<or> rest = [LastEventSignal]) \<and>
           length (filter isEventSignal more) = length after"
proof -
  obtain c3 em3 where pe: "processEvent getSchema isInfinite latest (c1, em1) ev = (c3, em3)"
    by (cases "processEvent getSchema isInfinite latest (c1, em1) ev")
  obtain c' em' where run: "processEvents getSchema isInfinite latest (c3, em3) after = (c', em')"
    by (cases "processEvents getSchema isInfinite latest (c3, em3) after")
  have "processEvents getSchema isInfinite latest st (before @ ev # after) = (c', em')"
    using assms(4) pe run by (simp add: processEvents_append)
  then have od: "onData getSchema isInfinite st data = Inr (c', em')"
    using assms(1,2,3) by (simp add: onData_def)
  from processEvent_emitted [OF pe assms(5)] obtain rest where
    r: "emitted em3 = emitted em1 @ eventSignal (Inl err) ev latest # rest"
       "rest = [] \<or> rest = [LastEventSignal]"
    by blast
  from processEvents_emitted [OF run] obtain more where
    m: "emitted em' = emitted em3 @ more" "length (filter isEventSignal more) = length after"
    by blast
  have sig: "eventSignal (Inl err) ev latest =
      ErrorSignal
        \<lparr>message = message (parseErrorOf err ev latest),
         cause = err,
         errorReplayId = (case decodeReplayId (replayId ev) of
                            Inr r \<Rightarrow> Some r
                          | Inl e \<Rightarrow> None),
         errorEvent = Some ev,
         errorLatestReplayId = Some latest\<rparr>"
    by (simp add: eventSignal_def parseErrorOf_def Let_def)
  from od r m sig show ?thesis by auto
qed

theorem C7_decode_error_continues_witness:
  "\<exists>c' em' rest more.
     onData (\<lambda>sid. Inr \<lparr>schemaKey = sid, getFields = [],
                        fromBuffer = (\<lambda>b. if b = [] then Inl (Error ''truncated'')
                                           else Inr (JObj [(''Name'', JStr ''Acme'')]))\<rparr>)
       False
       (\<lparr>connected = True, subscriptions = Map.empty, schemaCache = Map.empty, warnings = []\<rparr>,
        newPubSubEventEmitter ''T'' 5)
       \<lparr>events = Some ([] @
           \<lparr>event = Some \<lparr>schemaId = ''s'', payload = []\<rparr>,
            replayId = [0, 0, 0, 0, 0, 0, 0, 7]\<rparr> #
           [\<lparr>event = Some \<lparr>schemaId = ''s'', payload = [1]\<rparr>,
             replayId = [0, 0, 0, 0, 0, 0, 0, 8]\<rparr>]),
        latestReplayId = Encoded [0, 0, 0, 0, 0, 0, 0, 8], rpcId = '''',
        pendingNumRequested = 3\<rparr> = Inr (c', em') \<and>
     emitted em' =
       [] @
       ErrorSignal
         \<lparr>message = ''Failed to parse event with replay ID'',
          cause = Error ''truncated'',
          errorReplayId = Some 7,
          errorEvent = Some \<lparr>event = Some \<lparr>schemaId = ''s'', payload = []\<rparr>,
                             replayId = [0, 0, 0, 0, 0, 0, 0, 7]\<rparr>,
          errorLatestReplayId = Some 8\<rparr> # rest @ more \<and>
     (rest = [] \<or> rest = [LastEventSignal]) \<and>
     length (filter isEventSignal more) = 1"
proof -
  let ?g = "\<lambda>sid. Inr \<lparr>schemaKey = sid, getFields = [],
                        fromBuffer = (\<lambda>b. if b = [] then Inl (Error ''truncated'')
                                           else Inr (JObj [(''Name'', JStr ''Acme'')]))\<rparr>"
  let ?c = "\<lparr>connected = True, subscriptions = Map.empty, schemaCache = Map.empty,
    warnings = []\<rparr>"
  let ?bad = "\<lparr>event = Some \<lparr>schemaId = ''s'', payload = []\<rparr>,
    replayId = [0, 0, 0, 0, 0, 0, 0, 7]\<rparr>"
  let ?good = "\<lparr>event = Some \<lparr>schemaId = ''s'', payload = [1]\<rparr>,
    replayId = [0, 0, 0, 0, 0, 0, 0, 8]\<rparr>"
  let ?data = "\<lparr>events = Some ([] @ ?bad # [?good]),
    latestReplayId = Encoded [0, 0, 0, 0, 0, 0, 0, 8], rpcId = '''',
    pendingNumRequested = 3\<rparr>"
  have d7: "decodeReplayId [0, 0, 0, 0, 0, 0, 0, 7] = Inr 7" by code_simp
  have d8: "decodeReplayId [0, 0, 0, 0, 0, 0, 0, 8] = Inr 8" by code_simp
  have t: "tryParseEvent ?g ?c ?bad =
      (Inl (Error ''truncated''), ?c\<lparr>schemaCache := (schemaCache ?c)(''s'' \<mapsto> the_schema)\<rparr>)"
    if "the_schema = \<lparr>schemaKey = ''s'', getFields = [],
                        fromBuffer = (\<lambda>b. if b = [] then Inl (Error ''truncated'')
                                           else Inr (JObj [(''Name'', JStr ''Acme'')]))\<rparr>"
    for the_schema
    using that by (simp add: tryParseEvent_def getEventSchemaFromId_def parseEvent_def d7)
  have p: "message (parseErrorOf (Error ''truncated'') ?bad 8) =
      ''Failed to parse event with replay ID''"
    by (simp add: parseErrorOf_def d7)
  from C7_decode_error_continues [where data = ?data and getSchema = ?g and isInfinite = False
      and st = "(?c, newPubSubEventEmitter ''T'' 5)" and before = "[]" and ev = ?bad
      and after = "[?good]" and latest = 8 and err = "Error ''truncated''",
      OF _ d8 _ _ t [OF refl]]
  show ?thesis by (simp add: p d7 newPubSubEventEmitter_def)
qed

text \<open>
  C1: flow control when the received count reaches the requested count.  In bounded
  mode, after a subscription for 3 events, a message that delivers three events
  makes the handler emit exactly one \<open>lastevent\<close> signal and write nothing on any
  stream.  In unbounded mode, after a subscription with \<open>null\<close>, a message that
  delivers 100 events makes the handler write one new request for 100 events (the
  maximum batch size) on the topic's stream and leaves the received counter at 0,
  without a \<open>lastevent\<close> signal.
\<close>

theorem C1_flow_control:
  assumes "connected c"
    and "latestReplayId data = Encoded buf"
    and "decodeReplayId buf = Inr latest"
    and "events data = Some evs"
  shows "(numRequested r = JNum (Finite 3) \<and> length evs = 3 \<longrightarrow>
            fst (subscribe c r) = Inr (newPubSubEventEmitter (reqTopicName r) 3, False) \<and>
            (\<exists>c2 em2.
               onData getSchema False
                 (snd (subscribe c r), newPubSubEventEmitter (reqTopicName r) 3) data =
                 Inr (c2, em2) \<and>
               count_list (emitted em2) LastEventSignal = 1 \<and>
               subscriptions c2 = subscriptions (snd (subscribe c r)))) \<and>
         (numRequested r = JNull \<and> length evs = 100 \<longrightarrow>
            fst (subscribe c r) = Inr (newPubSubEventEmitter (reqTopicName r) 100, True) \<and>
            (\<exists>c2 em2 stream.
               onData getSchema True
                 (snd (subscribe c r), newPubSubEventEmitter (reqTopicName r) 100) data =
                 Inr (c2, em2) \<and>
               subscriptions (snd (subscribe c r)) (reqTopicName r) = Some stream \<and>
               subscriptions c2 =
                 (subscriptions (snd (subscribe c r)))
                   (reqTopicName r \<mapsto> stream @
                      [\<lparr>fetchTopicName = reqTopicName r, fetchNumRequested = 100,
                        fetchReplayPreset = None, fetchReplayId = None\<rparr>]) \<and>
               receivedEventCount em2 = 0 \<and> requestedEventCount em2 = 100 \<and>
               LastEventSignal \<notin> set (emitted em2)))"
proof (intro conjI impI)
  assume a: "numRequested r = JNum (Finite 3) \<and> length evs = 3"
  let ?em = "newPubSubEventEmitter (reqTopicName r) 3"
  let ?c1 = "snd (subscribe c r)"
  have "checkNumRequested (JNum (Finite (of_int 3))) = Inr (False, 3, 3 > MAX_EVENT_BATCH_SIZE)"
    by (rule checkNumRequested_safe) simp_all
  with a have ck: "checkNumRequested (numRequested r) = Inr (False, 3, 3 > MAX_EVENT_BATCH_SIZE)"
    by simp
  show "fst (subscribe c r) = Inr (?em, False)"
    by (rule subscribe_accepted(1) [OF ck assms(1)])
  obtain c2 em2 where run: "processEvents getSchema False latest (?c1, ?em) evs = (c2, em2)"
    by (cases "processEvents getSchema False latest (?c1, ?em) evs")
  then have od: "onData getSchema False (?c1, ?em) data = Inr (c2, em2)"
    using assms(2,3,4) by (simp add: onData_def)
  from processEvents_bounded [OF run] a
  have "count_list (emitted em2) LastEventSignal = 1"
    and "subscriptions c2 = subscriptions ?c1"
    by (simp_all add: newPubSubEventEmitter_def)
  with od show "\<exists>c2 em2. onData getSchema False (?c1, ?em) data = Inr (c2, em2) \<and>
      count_list (emitted em2) LastEventSignal = 1 \<and> subscriptions c2 = subscriptions ?c1"
    by blast
next
  assume a: "numRequested r = JNull \<and> length evs = 100"
  let ?em = "newPubSubEventEmitter (reqTopicName r) 100"
  let ?c1 = "snd (subscribe c r)"
  let ?req = "\<lparr>fetchTopicName = reqTopicName r, fetchNumRequested = 100,
    fetchReplayPreset = None, fetchReplayId = None\<rparr>"
  from a have ck: "checkNumRequested (numRequested r) = Inr (True, 100, False)"
    by (simp add: checkNumRequested_unbounded MAX_EVENT_BATCH_SIZE_def)
  show "fst (subscribe c r) = Inr (?em, True)"
    by (rule subscribe_accepted(1) [OF ck assms(1)])
  from subscribe_accepted(3) [OF ck assms(1)]
  obtain stream where stream: "subscriptions ?c1 (reqTopicName r) = Some stream"
    by blast
  from a have ne: "evs \<noteq> []" by auto
  define front where "front = butlast evs"
  define final where "final = last evs"
  from ne have split: "evs = front @ [final]" by (simp add: front_def final_def)
  from a have lf: "length front = 99" by (simp add: front_def)
  obtain c' em' where r1: "processEvents getSchema True latest (?c1, ?em) front = (c', em')"
    by (cases "processEvents getSchema True latest (?c1, ?em) front")
  obtain c2 em2 where r2: "processEvent getSchema True latest (c', em') final = (c2, em2)"
    by (cases "processEvent getSchema True latest (c', em') final")
  have "processEvents getSchema True latest (?c1, ?em) evs = (c2, em2)"
    unfolding split using r1 r2 by (simp add: processEvents_append)
  then have od: "onData getSchema True (?c1, ?em) data = Inr (c2, em2)"
    using assms(2,3,4) by (simp add: onData_def)
  have "receivedEventCount ?em + int (length front) < requestedEventCount ?em"
    using lf by (simp add: newPubSubEventEmitter_def)
  from processEvents_unbounded_below [OF r1 this] lf
  have f: "subscriptions c' = subscriptions ?c1" "topicName em' = reqTopicName r"
    "requestedEventCount em' = 100" "receivedEventCount em' = 99"
    "LastEventSignal \<notin> set (emitted em')"
    by (simp_all add: newPubSubEventEmitter_def)
  have reach: "receivedEventCount em' + 1 = requestedEventCount em'" using f by simp
  have st': "subscriptions c' (topicName em') = Some stream" using f stream by simp
  note fin = processEvent_unbounded_reached [OF r2 reach st']
  from fin(4) obtain s where s: "isEventSignal s" "emitted em2 = emitted em' @ [s]" by blast
  from s(1) have "s \<noteq> LastEventSignal" by auto
  with s(2) f(5) have nl: "LastEventSignal \<notin> set (emitted em2)" by simp
  from fin(1) f have sub: "subscriptions c2 =
      (subscriptions ?c1)(reqTopicName r \<mapsto> stream @ [?req])"
    by (simp add: MAX_EVENT_BATCH_SIZE_def)
  from fin(2,3) have cnt: "receivedEventCount em2 = 0" "requestedEventCount em2 = 100"
    by (simp_all add: MAX_EVENT_BATCH_SIZE_def)
  from od stream sub cnt nl
  show "\<exists>c2 em2 stream.
      onData getSchema True (?c1, ?em) data = Inr (c2, em2) \<and>
      subscriptions ?c1 (reqTopicName r) = Some stream \<and>
      subscriptions c2 = (subscriptions ?c1)(reqTopicName r \<mapsto> stream @ [?req]) \<and>
      receivedEventCount em2 = 0 \<and> requestedEventCount em2 = 100 \<and>
      LastEventSignal \<notin> set (emitted em2)"
    by blast
qed

theorem C1_flow_control_witness:
  "(\<exists>c2 em2.
      onData (\<lambda>sid. Inr \<lparr>schemaKey = sid, getFields = [],
                         fromBuffer = (\<lambda>b. Inr (JObj [(''Name'', JStr ''Acme'')]))\<rparr>) False
        (snd (subscribe
           \<lparr>connected = True, subscriptions = Map.empty, schemaCache = Map.empty,
            warnings = []\<rparr>
           \<lparr>reqTopicName = ''T'', numRequested = JNum (Finite 3), replayPreset = None,
            reqReplayId = None\<rparr>),
         newPubSubEventEmitter ''T'' 3)
        \<lparr>events = Some (replicate 3
           \<lparr>event = Some \<lparr>schemaId = ''s'', payload = [1]\<rparr>,
            replayId = [0, 0, 0, 0, 0, 0, 0, 8]\<rparr>),
         latestReplayId = Encoded [0, 0, 0, 0, 0, 0, 0, 8], rpcId = '''',
         pendingNumRequested = 0\<rparr> = Inr (c2, em2) \<and>
      count_list (emitted em2) LastEventSignal = 1) \<and>
   (\<exists>c2 em2.
      onData (\<lambda>sid. Inr \<lparr>schemaKey = sid, getFields = [],
                         fromBuffer = (\<lambda>b. Inr (JObj [(''Name'', JStr ''Acme'')]))\<rparr>) True
        (snd (subscribe
           \<lparr>connected = True, subscriptions = Map.empty, schemaCache = Map.empty,
            warnings = []\<rparr>
           \<lparr>reqTopicName = ''T'', numRequested = JNull, replayPreset = None,
            reqReplayId = None\<rparr>),
         newPubSubEventEmitter ''T'' 100)
        \<lparr>events = Some (replicate 100
           \<lparr>event = Some \<lparr>schemaId = ''s'', payload = [1]\<rparr>,
            replayId = [0, 0, 0, 0, 0, 0, 0, 8]\<rparr>),
         latestReplayId = Encoded [0, 0, 0, 0, 0, 0, 0, 8], rpcId = '''',
         pendingNumRequested = 0\<rparr> = Inr (c2, em2) \<and>
      receivedEventCount em2 = 0 \<and> requestedEventCount em2 = 100 \<and>
      LastEventSignal \<notin> set (emitted em2))"
proof -
  let ?g = "\<lambda>sid. Inr \<lparr>schemaKey = sid, getFields = [],
                         fromBuffer = (\<lambda>b. Inr (JObj [(''Name'', JStr ''Acme'')]))\<rparr>"
  let ?c = "\<lparr>connected = True, subscriptions = Map.empty, schemaCache = Map.empty,
    warnings = []\<rparr>"
  let ?r3 = "\<lparr>reqTopicName = ''T'', numRequested = JNum (Finite 3), replayPreset = None,
    reqReplayId = None\<rparr>"
  let ?r0 = "\<lparr>reqTopicName = ''T'', numRequested = JNull, replayPreset = None,
    reqReplayId = None\<rparr>"
  let ?ev = "\<lparr>event = Some \<lparr>schemaId = ''s'', payload = [1]\<rparr>,
    replayId = [0, 0, 0, 0, 0, 0, 0, 8]\<rparr>"
  let ?d3 = "\<lparr>events = Some (replicate 3 ?ev),
    latestReplayId = Encoded [0, 0, 0, 0, 0, 0, 0, 8], rpcId = '''',
    pendingNumRequested = 0\<rparr>"
  let ?d100 = "\<lparr>events = Some (replicate 100 ?ev),
    latestReplayId = Encoded [0, 0, 0, 0, 0, 0, 0, 8], rpcId = '''',
    pendingNumRequested = 0\<rparr>"
  have d8: "decodeReplayId [0, 0, 0, 0, 0, 0, 0, 8] = Inr 8" by code_simp
  have conn: "connected ?c" by simp
  have bounded: "\<exists>c2 em2.
      onData ?g False (snd (subscribe ?c ?r3), newPubSubEventEmitter ''T'' 3) ?d3 =
        Inr (c2, em2) \<and>
      count_list (emitted em2) LastEventSignal = 1"
    using C1_flow_control [where c = ?c and data = ?d3 and evs = "replicate 3 ?ev"
        and r = ?r3 and getSchema = ?g, OF conn _ d8]
    by simp blast
  have unbounded: "\<exists>c2 em2.
      onData ?g True (snd (subscribe ?c ?r0), newPubSubEventEmitter ''T'' 100) ?d100 =
        Inr (c2, em2) \<and>
      receivedEventCount em2 = 0 \<and> requestedEventCount em2 = 100 \<and>
      LastEventSignal \<notin> set (emitted em2)"
    using C1_flow_control [where c = ?c and data = ?d100 and evs = "replicate 100 ?ev"
        and r = ?r0 and getSchema = ?g, OF conn _ d8]
    by simp blast
  from bounded unbounded show ?thesis by blast
qed

end
